theory Spec2Isabelle
  imports Main "HOL-Library.Word"
begin

section \<open>Detective Quest: the mansion, the clue ledger, the suspect index and the verdict\<close>

text \<open>
  A shallow embedding of \<^verbatim>\<open>src/algoritmos_avancados.c\<close> (the first, richest program
  of that file). Conventions:
  \<^item> a C string is the \<open>string\<close> of its bytes before the terminating NUL; a
    \<^verbatim>\<open>char *\<close> that may be \<^verbatim>\<open>NULL\<close> is a \<open>string option\<close>;
  \<^item> the pointer-linked trees are datatypes whose first constructor is the
    \<^verbatim>\<open>NULL\<close> pointer; a chain of \<^verbatim>\<open>prox\<close> pointers is a list;
  \<^item> \<^verbatim>\<open>stdin\<close> is the string of the bytes not yet read, \<^verbatim>\<open>stdout\<close> a list of
    events, one per message printed;
  \<^item> \<^verbatim>\<open>malloc\<close>, \<^verbatim>\<open>calloc\<close> and \<^verbatim>\<open>realloc\<close> are taken to succeed;
  \<^item> undefined behaviour of the C program (division by zero, a read outside an
    array, a NULL dereference) is a value of type \<open>fault\<close>.
\<close>

subsection \<open>Strings and characters of the C library\<close>

text \<open>
  \<^verbatim>\<open>strcmp\<close>: the sign of the difference of the first two differing bytes, read as
  \<^verbatim>\<open>unsigned char\<close>; the end of a string is the byte 0, below every other byte.
\<close>

fun strcmp :: "string \<Rightarrow> string \<Rightarrow> int" where
  "strcmp [] [] = 0"
| "strcmp [] (y # ys) = - 1"
| "strcmp (x # xs) [] = 1"
| "strcmp (x # xs) (y # ys) =
     (if x = y then strcmp xs ys
      else if (of_char x :: nat) < of_char y then - 1 else 1)"

text \<open>\<^verbatim>\<open>tolower\<close> and \<^verbatim>\<open>isspace\<close> in the "C" locale (the program never calls
  \<^verbatim>\<open>setlocale\<close>): only the 26 ASCII capitals change; the white space is the
  blank and the bytes 9 to 13.\<close>

definition tolower :: "char \<Rightarrow> char" where
  "tolower c =
     (if (65::nat) \<le> of_char c \<and> of_char c \<le> (90::nat)
      then char_of (of_char c + (32::nat)) else c)"

definition isspace :: "char \<Rightarrow> bool" where
  "isspace c = (of_char c = (32::nat) \<or> ((9::nat) \<le> of_char c \<and> of_char c \<le> (13::nat)))"

text \<open>\<^verbatim>\<open>str_lower\<close> (lines 70-72): every byte through \<^verbatim>\<open>tolower\<close>, in place.\<close>

definition str_lower :: "string \<Rightarrow> string" where
  "str_lower s = map tolower s"

subsection \<open>The clue ledger: a binary search tree of strings\<close>

datatype PistaNode = PNull | PNode PistaNode string PistaNode

text \<open>\<^verbatim>\<open>inserirPista\<close> (lines 113-135). The clue is a \<^verbatim>\<open>const char *\<close>: \<open>None\<close> is
  \<^verbatim>\<open>NULL\<close>.\<close>

fun inserirPista :: "PistaNode \<Rightarrow> string option \<Rightarrow> PistaNode" where
  "inserirPista raiz None = raiz"
| "inserirPista raiz (Some p) =
     (if p = [] then raiz
      else case raiz of
        PNull \<Rightarrow> PNode PNull p PNull
      | PNode l x r \<Rightarrow>
          (let cmp = strcmp p x in
           if cmp = 0 then raiz
           else if cmp < 0 then PNode (inserirPista l (Some p)) x r
           else PNode l x (inserirPista r (Some p))))"

text \<open>\<^verbatim>\<open>exibirPistas\<close> (lines 138-143): the lines printed, left subtree first.\<close>

fun exibirPistas :: "PistaNode \<Rightarrow> string list" where
  "exibirPistas PNull = []"
| "exibirPistas (PNode l x r) = exibirPistas l @ x # exibirPistas r"


subsection \<open>The mansion: a binary tree of rooms\<close>

text \<open>\<^verbatim>\<open>struct Sala\<close>: \<open>SNode nome pista esq dir\<close>; \<open>SNull\<close> is the \<^verbatim>\<open>NULL\<close> pointer.\<close>

datatype Sala = SNull | SNode string "string option" Sala Sala

text \<open>\<^verbatim>\<open>criarSala\<close> (lines 83-93): a room without children; the clue is kept only
  when it is neither \<^verbatim>\<open>NULL\<close> nor empty.\<close>

definition criarSala :: "string option \<Rightarrow> string option \<Rightarrow> Sala" where
  "criarSala nome pista =
     SNode (case nome of None \<Rightarrow> [] | Some n \<Rightarrow> n)
           (case pista of
              None \<Rightarrow> None
            | Some p \<Rightarrow> if p \<noteq> [] then Some p else None)
           SNull SNull"

text \<open>The two assignments \<^verbatim>\<open>s->esq = e; s->dir = d;\<close> of \<^verbatim>\<open>main\<close> (lines 499-504).\<close>

definition conectar :: "Sala \<Rightarrow> Sala \<Rightarrow> Sala \<Rightarrow> Sala" where
  "conectar s e d = (case s of SNull \<Rightarrow> SNull | SNode n p _ _ \<Rightarrow> SNode n p e d)"

subsection \<open>The suspect index: a chained hash table\<close>

datatype fault = DivisionByZero | OutOfBounds | NullDereference

record HashEntry =
  chave :: string
  suspeito :: string

text \<open>\<^verbatim>\<open>struct HashTable\<close>: the array of chains and its declared number of buckets.\<close>

record HashTable =
  buckets :: "HashEntry list list"
  tamanho :: nat

text \<open>\<^verbatim>\<open>hash_djb2\<close> (lines 159-165), on a 64-bit \<^verbatim>\<open>unsigned long\<close>.\<close>

fun hash_djb2_loop :: "64 word \<Rightarrow> string \<Rightarrow> 64 word" where
  "hash_djb2_loop hash [] = hash"
| "hash_djb2_loop hash (c # str) =
     hash_djb2_loop ((push_bit 5 hash + hash) + of_nat (of_char c)) str"

definition hash_djb2 :: "string \<Rightarrow> 64 word" where
  "hash_djb2 str = hash_djb2_loop 5381 str"

text \<open>\<^verbatim>\<open>criarHash\<close> (lines 168-178): \<^verbatim>\<open>calloc\<close> gives \<open>tamanho\<close> empty chains.\<close>

definition criarHash :: "nat \<Rightarrow> HashTable option" where
  "criarHash n = Some \<lparr>buckets = replicate n [], tamanho = n\<rparr>"

text \<open>\<^verbatim>\<open>hash_djb2(pista) % ht->tamanho\<close> and the read of \<^verbatim>\<open>ht->buckets[h]\<close>: the
  remainder by zero and an index outside the array are undefined in C.\<close>

definition indice :: "HashTable \<Rightarrow> string \<Rightarrow> fault + nat" where
  "indice ht str =
     (if tamanho ht = 0 then Inl DivisionByZero
      else let h = unat (hash_djb2 str) mod tamanho ht in
           if h < length (buckets ht) then Inr h else Inl OutOfBounds)"

text \<open>The search loop of \<^verbatim>\<open>inserirNaHash\<close> (lines 190-198): the first entry of the
  chain with the key gets the new suspect; \<open>None\<close> when the chain has no such entry.\<close>

fun sobrescrever :: "HashEntry list \<Rightarrow> string \<Rightarrow> string \<Rightarrow> HashEntry list option" where
  "sobrescrever [] k v = None"
| "sobrescrever (ent # prox) k v =
     (if strcmp (chave ent) k = 0 then Some (ent\<lparr>suspeito := v\<rparr> # prox)
      else case sobrescrever prox k v of
             None \<Rightarrow> None
           | Some prox' \<Rightarrow> Some (ent # prox'))"

text \<open>\<^verbatim>\<open>inserirNaHash\<close> (lines 185-209); the result is the table after the call.\<close>

definition inserirNaHash ::
  "HashTable option \<Rightarrow> string option \<Rightarrow> string option \<Rightarrow> fault + HashTable option" where
  "inserirNaHash ht pista nome_suspeito =
     (case ht of
        None \<Rightarrow> Inr ht
      | Some t \<Rightarrow>
          (case pista of
             None \<Rightarrow> Inr ht
           | Some k \<Rightarrow>
               (case nome_suspeito of
                  None \<Rightarrow> Inr ht
                | Some v \<Rightarrow>
                    (case indice t k of
                       Inl f \<Rightarrow> Inl f
                     | Inr h \<Rightarrow>
                         (case sobrescrever (buckets t ! h) k v of
                            Some c \<Rightarrow> Inr (Some (t\<lparr>buckets := (buckets t)[h := c]\<rparr>))
                          | None \<Rightarrow>
                              Inr (Some (t\<lparr>buckets :=
                                (buckets t)[h := \<lparr>chave = k, suspeito = v\<rparr> # buckets t ! h]\<rparr>)))))))"

text \<open>The search loop of \<^verbatim>\<open>encontrarSuspeito\<close> (lines 220-223).\<close>

fun procurar :: "HashEntry list \<Rightarrow> string \<Rightarrow> string option" where
  "procurar [] k = None"
| "procurar (ent # prox) k =
     (if strcmp (chave ent) k = 0 then Some (suspeito ent) else procurar prox k)"

text \<open>\<^verbatim>\<open>encontrarSuspeito\<close> (lines 216-225).\<close>

definition encontrarSuspeito :: "HashTable option \<Rightarrow> string option \<Rightarrow> fault + string option" where
  "encontrarSuspeito ht pista =
     (case ht of
        None \<Rightarrow> Inr None
      | Some t \<Rightarrow>
          (case pista of
             None \<Rightarrow> Inr None
           | Some k \<Rightarrow>
               (case indice t k of
                  Inl f \<Rightarrow> Inl f
                | Inr h \<Rightarrow> Inr (procurar (buckets t ! h) k))))"

text \<open>\<^verbatim>\<open>listarSuspeitosHash\<close> (lines 245-280): one chain adds to the front of the
  list every suspect not yet in it; the buckets are walked from 0 to
  \<open>tamanho - 1\<close>, and the list is printed from its head.\<close>

fun listar_cadeia :: "HashEntry list \<Rightarrow> string list \<Rightarrow> string list" where
  "listar_cadeia [] lista = lista"
| "listar_cadeia (e # prox) lista =
     listar_cadeia prox
       (if list_ex (\<lambda>p. strcmp p (suspeito e) = 0) lista then lista
        else suspeito e # lista)"

definition listarSuspeitosHash :: "HashTable option \<Rightarrow> fault + string list option" where
  "listarSuspeitosHash ht =
     (case ht of
        None \<Rightarrow> Inr None
      | Some t \<Rightarrow>
          if length (buckets t) < tamanho t then Inl OutOfBounds
          else Inr (Some (fold listar_cadeia (take (tamanho t) (buckets t)) [])))"


subsection \<open>Reading a line\<close>

text \<open>\<^verbatim>\<open>fgets(buf, tam, stdin)\<close>: at most \<open>tam - 1\<close> bytes, stopping after a
  newline; \<^verbatim>\<open>NULL\<close> when the input is at its end before any byte. The pair is the
  bytes stored and the input left.\<close>

fun fgets_bytes :: "nat \<Rightarrow> string \<Rightarrow> string \<times> string" where
  "fgets_bytes k [] = ([], [])"
| "fgets_bytes k (c # cs) =
     (if k = 0 then ([], c # cs)
      else if c = CHR 0x0A then ([c], cs)
      else case fgets_bytes (k - 1) cs of (l, rest) \<Rightarrow> (c # l, rest))"

definition fgets :: "nat \<Rightarrow> string \<Rightarrow> string option \<times> string" where
  "fgets tam inp =
     (if inp = [] then (None, [])
      else case fgets_bytes (tam - 1) inp of (l, rest) \<Rightarrow> (Some l, rest))"

text \<open>\<^verbatim>\<open>ler_linha\<close> (lines 60-67): the C string left in \<^verbatim>\<open>buf\<close> (the bytes before
  the first NUL), without its final newline; the empty string at the end of the
  input.\<close>

definition ler_linha :: "nat \<Rightarrow> string \<Rightarrow> string \<times> string" where
  "ler_linha tam inp =
     (case fgets tam inp of
        (None, rest) \<Rightarrow> ([], rest)
      | (Some bytes, rest) \<Rightarrow>
          (let buf = takeWhile (\<lambda>c. c \<noteq> CHR 0x00) bytes in
           if buf \<noteq> [] \<and> last buf = CHR 0x0A then (butlast buf, rest) else (buf, rest)))"

subsection \<open>Exploring the mansion\<close>

datatype evento =
    MapaVazio
  | EstaNaSala string
  | PistaEncontrada string
  | ApontaPara string
  | NenhumSuspeitoConhecido
  | NenhumaPista
  | Opcoes bool bool
  | SaindoDaExploracao
  | EsquerdaIndisponivel
  | DireitaIndisponivel
  | OpcaoInvalida
  | HistoricoVisitas "string list"
  | NenhumaSalaVisitada

text \<open>The variables of \<^verbatim>\<open>explorarSalas\<close>: the room \<^verbatim>\<open>atual\<close>, the names in
  \<^verbatim>\<open>historico[0..n)\<close>, the ledger \<^verbatim>\<open>*pistasRoot\<close>, the input not yet read and the
  messages printed so far.\<close>

record estado =
  atual :: Sala
  historico :: "string list"
  pistas :: PistaNode
  entrada :: string
  saida :: "evento list"

text \<open>Lines 306-331 of the loop body: the visit is recorded, the room shown, its clue
  (when it has a non-empty one) inserted in the ledger and looked up in the index.\<close>

definition visitar :: "HashTable option \<Rightarrow> estado \<Rightarrow> fault + estado" where
  "visitar ht st =
     (case atual st of
        SNull \<Rightarrow> Inl NullDereference
      | SNode nm p e d \<Rightarrow>
          (let st1 = st\<lparr>historico := historico st @ [nm],
                        saida := saida st @ [EstaNaSala nm]\<rparr> in
           case p of
             None \<Rightarrow> Inr (st1\<lparr>saida := saida st1 @ [NenhumaPista]\<rparr>)
           | Some c \<Rightarrow>
               if c \<noteq> [] then
                 (case encontrarSuspeito ht (Some c) of
                    Inl f \<Rightarrow> Inl f
                  | Inr sus \<Rightarrow>
                      Inr (st1\<lparr>pistas := inserirPista (pistas st1) (Some c),
                               saida := saida st1 @
                                 [PistaEncontrada c,
                                  case sus of
                                    Some s \<Rightarrow> ApontaPara s
                                  | None \<Rightarrow> NenhumSuspeitoConhecido]\<rparr>))
               else Inr (st1\<lparr>saida := saida st1 @ [NenhumaPista]\<rparr>)))"

text \<open>Lines 343-345: the first byte of the line that is not white space, in lower
  case; the byte 0 when there is none.\<close>

fun escolha_de :: "string \<Rightarrow> char" where
  "escolha_de [] = CHR 0x00"
| "escolha_de (c # cs) = (if \<not> isspace c then tolower c else escolha_de cs)"

text \<open>Lines 333-359: the menu, the line read and the move. \<open>True\<close> is
  \<^verbatim>\<open>continue\<close>, \<open>False\<close> is \<^verbatim>\<open>break\<close>.\<close>

definition comandar :: "estado \<Rightarrow> fault + bool \<times> estado" where
  "comandar st =
     (case atual st of
        SNull \<Rightarrow> Inl NullDereference
      | SNode nm p e d \<Rightarrow>
          (let temEsq = (e \<noteq> SNull);
               temDir = (d \<noteq> SNull);
               lido = ler_linha 128 (entrada st);
               escolha = escolha_de (fst lido);
               st1 = st\<lparr>entrada := snd lido, saida := saida st @ [Opcoes temEsq temDir]\<rparr>
           in
           if escolha = CHR ''s'' then
             Inr (False, st1\<lparr>saida := saida st1 @ [SaindoDaExploracao]\<rparr>)
           else if escolha = CHR ''e'' then
             (if temEsq then Inr (True, st1\<lparr>atual := e\<rparr>)
              else Inr (True, st1\<lparr>saida := saida st1 @ [EsquerdaIndisponivel]\<rparr>))
           else if escolha = CHR ''d'' then
             (if temDir then Inr (True, st1\<lparr>atual := d\<rparr>)
              else Inr (True, st1\<lparr>saida := saida st1 @ [DireitaIndisponivel]\<rparr>))
           else Inr (True, st1\<lparr>saida := saida st1 @ [OpcaoInvalida]\<rparr>)))"

text \<open>One turn of the \<^verbatim>\<open>while (1)\<close> loop (lines 305-360).\<close>

definition passo :: "HashTable option \<Rightarrow> estado \<Rightarrow> fault + bool \<times> estado" where
  "passo ht st = (case visitar ht st of Inl f \<Rightarrow> Inl f | Inr st1 \<Rightarrow> comandar st1)"

text \<open>The loop, with fuel: \<open>None\<close> when the fuel runs out before the loop is left.
  Each turn appends to \<^verbatim>\<open>historico\<close>; the doubling of its capacity is not
  modelled, \<^verbatim>\<open>realloc\<close> being taken to succeed.\<close>

fun explorar_loop :: "nat \<Rightarrow> HashTable option \<Rightarrow> estado \<Rightarrow> (fault + estado) option" where
  "explorar_loop 0 ht st = None"
| "explorar_loop (Suc fuel) ht st =
     (case passo ht st of
        Inl f \<Rightarrow> Some (Inl f)
      | Inr (continua, st1) \<Rightarrow>
          if continua then explorar_loop fuel ht st1 else Some (Inr st1))"

text \<open>\<^verbatim>\<open>explorarSalas\<close> (lines 294-370): the final state, after the history is
  printed.\<close>

definition explorarSalas ::
  "nat \<Rightarrow> Sala \<Rightarrow> HashTable option \<Rightarrow> PistaNode \<Rightarrow> string \<Rightarrow> (fault + estado) option" where
  "explorarSalas fuel inicio ht pistasRoot inp =
     (if inicio = SNull then
        Some (Inr \<lparr>atual = inicio, historico = [], pistas = pistasRoot,
                   entrada = inp, saida = [MapaVazio]\<rparr>)
      else
        case explorar_loop fuel ht
               \<lparr>atual = inicio, historico = [], pistas = pistasRoot,
                entrada = inp, saida = []\<rparr> of
          None \<Rightarrow> None
        | Some (Inl f) \<Rightarrow> Some (Inl f)
        | Some (Inr st) \<Rightarrow>
            Some (Inr (st\<lparr>saida := saida st @
              [if historico st \<noteq> [] then HistoricoVisitas (historico st)
               else NenhumaSalaVisitada]\<rparr>)))"

subsection \<open>The verdict\<close>

record SuspeitoConta =
  nome :: string
  cont :: int

text \<open>The search loop of \<^verbatim>\<open>conta_suspeito_add\<close> (lines 379-383): the first entry
  with the name is incremented; \<open>None\<close> when the list has no such entry.\<close>

fun incrementar :: "SuspeitoConta list \<Rightarrow> string \<Rightarrow> SuspeitoConta list option" where
  "incrementar [] n = None"
| "incrementar (p # prox) n =
     (if strcmp (nome p) n = 0 then Some (p\<lparr>cont := cont p + 1\<rparr> # prox)
      else case incrementar prox n of
             None \<Rightarrow> None
           | Some prox' \<Rightarrow> Some (p # prox'))"

text \<open>\<^verbatim>\<open>conta_suspeito_add\<close> (lines 377-390).\<close>

definition conta_suspeito_add :: "SuspeitoConta list \<Rightarrow> string option \<Rightarrow> SuspeitoConta list" where
  "conta_suspeito_add lista n =
     (case n of
        None \<Rightarrow> lista
      | Some s \<Rightarrow>
          (case incrementar lista s of
             Some lista' \<Rightarrow> lista'
           | None \<Rightarrow> \<lparr>nome = s, cont = 1\<rparr> # lista))"

text \<open>\<^verbatim>\<open>contar_pistas_por_suspeito\<close> (lines 403-410).\<close>

fun contar_pistas_por_suspeito ::
  "PistaNode \<Rightarrow> HashTable option \<Rightarrow> SuspeitoConta list \<Rightarrow> fault + SuspeitoConta list" where
  "contar_pistas_por_suspeito PNull ht lista = Inr lista"
| "contar_pistas_por_suspeito (PNode l x r) ht lista =
     (case contar_pistas_por_suspeito l ht lista of
        Inl f \<Rightarrow> Inl f
      | Inr lista1 \<Rightarrow>
          (case encontrarSuspeito ht (Some x) of
             Inl f \<Rightarrow> Inl f
           | Inr sus \<Rightarrow>
               contar_pistas_por_suspeito r ht
                 (case sus of
                    None \<Rightarrow> lista1
                  | Some s \<Rightarrow> conta_suspeito_add lista1 (Some s))))"

text \<open>The outcomes printed by \<^verbatim>\<open>verificarSuspeitoFinal\<close>: no clue collected (line 419,
  NoEvidenceCollected in the specification), accusation cancelled by an empty
  line (line 440), accusation without support (line 470, Unsupported), guilty
  (line 475, Guilty), acquitted for lack of evidence (line 477,
  InsufficientEvidence).\<close>

datatype veredito = SemPistas | AcusacaoCancelada | Improcedente | Culpado | Inocentado

text \<open>The search loop of \<^verbatim>\<open>verificarSuspeitoFinal\<close> (lines 452-466): \<^verbatim>\<open>strncpy\<close>
  keeps the first 127 bytes of the name, \<^verbatim>\<open>str_lower\<close> folds them, and the first
  entry equal to the folded accusation gives its count.\<close>

fun buscar_acusado :: "SuspeitoConta list \<Rightarrow> string \<Rightarrow> int option" where
  "buscar_acusado [] acusado_norm = None"
| "buscar_acusado (p # prox) acusado_norm =
     (let nome_norm = str_lower (take 127 (nome p)) in
      if strcmp nome_norm acusado_norm = 0 then Some (cont p)
      else buscar_acusado prox acusado_norm)"

text \<open>Lines 445-479: the judgement of the accusation in \<^verbatim>\<open>buf\<close>.\<close>

definition julgar :: "SuspeitoConta list \<Rightarrow> string \<Rightarrow> veredito" where
  "julgar lista buf =
     (let acusado_norm = str_lower (take 127 buf) in
      case buscar_acusado lista acusado_norm of
        None \<Rightarrow> Improcedente
      | Some c \<Rightarrow> if c \<ge> 2 then Culpado else Inocentado)"

text \<open>What \<^verbatim>\<open>verificarSuspeitoFinal\<close> leaves behind: the verdict printed, the input
  not read, and the two lists shown before the question (the clues in order, the
  known suspects).\<close>

record julgamento =
  resultado :: veredito
  resto :: string
  pistas_mostradas :: "string list"
  suspeitos_mostrados :: "string list option"

text \<open>\<^verbatim>\<open>verificarSuspeitoFinal\<close> (lines 417-482).\<close>

definition verificarSuspeitoFinal ::
  "PistaNode \<Rightarrow> HashTable option \<Rightarrow> string \<Rightarrow> fault + julgamento" where
  "verificarSuspeitoFinal pistasRoot ht inp =
     (if pistasRoot = PNull then
        Inr \<lparr>resultado = SemPistas, resto = inp,
             pistas_mostradas = [], suspeitos_mostrados = None\<rparr>
      else
        case listarSuspeitosHash ht of
          Inl f \<Rightarrow> Inl f
        | Inr conhecidos \<Rightarrow>
            (case contar_pistas_por_suspeito pistasRoot ht [] of
               Inl f \<Rightarrow> Inl f
             | Inr lista \<Rightarrow>
                 (let lido = ler_linha 128 inp;
                      buf = fst lido
                  in Inr \<lparr>resultado =
                            (if buf = [] then AcusacaoCancelada else julgar lista buf),
                          resto = snd lido,
                          pistas_mostradas = exibirPistas pistasRoot,
                          suspeitos_mostrados = conhecidos\<rparr>)))"


subsection \<open>The program\<close>

text \<open>The strings of \<^verbatim>\<open>main\<close> that are not ASCII, as the UTF-8 bytes of the source
  file: in "Lencol manchado" the c has a cedilla (bytes C3 A7); in "Livro com
  pagina faltando" and "Bibliotecario" the a after p and after c has an acute
  accent (bytes C3 A1).\<close>

definition lencol_manchado :: string where
  "lencol_manchado = ''Len'' @ [CHR 0xC3, CHR 0xA7] @ ''ol manchado''"

definition livro_pagina :: string where
  "livro_pagina = ''Livro com p'' @ [CHR 0xC3, CHR 0xA1] @ ''gina faltando''"

definition bibliotecario :: string where
  "bibliotecario = ''Bibliotec'' @ [CHR 0xC3, CHR 0xA1] @ ''rio''"

text \<open>The map built by lines 490-504; the assignments of the children are made
  from the leaves up, which gives the same tree.\<close>

definition mansao :: Sala where
  "mansao =
     (let hall = criarSala (Some ''Hall de Entrada'') (Some ''Pegadas de lama'');
          salaEstar = criarSala (Some ''Sala de Estar'') (Some livro_pagina);
          corredor = criarSala (Some ''Corredor'') None;
          cozinha = criarSala (Some ''Cozinha'') (Some ''Chave perdida'');
          biblioteca = criarSala (Some ''Biblioteca'') None;
          quarto = criarSala (Some ''Quarto'') (Some lencol_manchado);
          jardim = criarSala (Some ''Jardim'') (Some ''Gaveta perdida'')
      in conectar hall (conectar salaEstar cozinha biblioteca)
                       (conectar corredor quarto jardim))"

text \<open>Sequencing of calls that may end in undefined behaviour.\<close>

definition depois :: "fault + 'a \<Rightarrow> ('a \<Rightarrow> fault + 'b) \<Rightarrow> fault + 'b" where
  "depois r f = (case r of Inl e \<Rightarrow> Inl e | Inr x \<Rightarrow> f x)"

text \<open>The index built by lines 507-514.\<close>

definition indice_do_jogo :: "fault + HashTable option" where
  "indice_do_jogo =
     depois (inserirNaHash (criarHash 31) (Some ''Pegadas de lama'') (Some ''Jardineiro''))
       (\<lambda>ht. depois (inserirNaHash ht (Some ''Gaveta perdida'') (Some ''Jardineiro''))
       (\<lambda>ht. depois (inserirNaHash ht (Some ''Chave perdida'') (Some ''Empregado''))
       (\<lambda>ht. depois (inserirNaHash ht (Some lencol_manchado) (Some ''Empregado''))
       (\<lambda>ht. inserirNaHash ht (Some livro_pagina) (Some bibliotecario)))))"

text \<open>\<^verbatim>\<open>main\<close> (lines 488-535): the exploration from the hall with an empty ledger,
  then the verdict on the ledger collected, reading the input the exploration
  left.\<close>

definition main_prog :: "nat \<Rightarrow> string \<Rightarrow> (fault + estado \<times> julgamento) option" where
  "main_prog fuel inp =
     (case indice_do_jogo of
        Inl f \<Rightarrow> Some (Inl f)
      | Inr ht \<Rightarrow>
          (case explorarSalas fuel mansao ht PNull inp of
             None \<Rightarrow> None
           | Some (Inl f) \<Rightarrow> Some (Inl f)
           | Some (Inr st) \<Rightarrow>
               (case verificarSuspeitoFinal (pistas st) ht (entrada st) of
                  Inl f \<Rightarrow> Some (Inl f)
                | Inr j \<Rightarrow> Some (Inr (st, j)))))"


section \<open>Vocabulary of the properties\<close>

text \<open>The ledger is ordered when its in-order enumeration is strictly increasing for
  \<^verbatim>\<open>strcmp\<close>.\<close>

definition ordenada :: "PistaNode \<Rightarrow> bool" where
  "ordenada t = sorted_wrt (\<lambda>a b. strcmp a b < 0) (exibirPistas t)"

text \<open>The ledger after the clues \<open>cs\<close> were inserted one after the other into the
  empty ledger: every ledger the program can hold.\<close>

definition coletar :: "string option list \<Rightarrow> PistaNode" where
  "coletar cs = fold (\<lambda>c t. inserirPista t c) cs PNull"

text \<open>\<open>acrescenta_folha p t t'\<close>: the tree \<open>t'\<close> is \<open>t\<close> with one \<open>PNull\<close> replaced by
  the leaf holding \<open>p\<close>, nothing else changed.\<close>

fun acrescenta_folha :: "string \<Rightarrow> PistaNode \<Rightarrow> PistaNode \<Rightarrow> bool" where
  "acrescenta_folha p PNull t' = (t' = PNode PNull p PNull)"
| "acrescenta_folha p (PNode l x r) (PNode l' x' r') =
     (x' = x \<and> ((acrescenta_folha p l l' \<and> r' = r) \<or> (l' = l \<and> acrescenta_folha p r r')))"
| "acrescenta_folha p (PNode l x r) PNull = False"

text \<open>All the bindings of the index, bucket after bucket.\<close>

definition entradas :: "HashTable \<Rightarrow> HashEntry list" where
  "entradas t = concat (buckets t)"

text \<open>A table as \<^verbatim>\<open>criarHash\<close> and \<^verbatim>\<open>inserirNaHash\<close> leave it: at least one
  bucket, as many chains as declared, every entry in the chain of its hash, no key
  twice in a chain.\<close>

definition tabela_inv :: "HashTable \<Rightarrow> bool" where
  "tabela_inv t =
     (0 < tamanho t \<and> length (buckets t) = tamanho t \<and>
      list_all (\<lambda>i. distinct (map chave (buckets t ! i)) \<and>
                    list_all (\<lambda>e. indice t (chave e) = Inr i) (buckets t ! i))
        [0..<tamanho t])"

text \<open>A sequence of calls of \<^verbatim>\<open>inserirNaHash\<close>, first to last.\<close>

fun inserir_todos :: "HashTable option \<Rightarrow> (string \<times> string) list \<Rightarrow> fault + HashTable option" where
  "inserir_todos ht [] = Inr ht"
| "inserir_todos ht (kv # ps) =
     (case inserirNaHash ht (Some (fst kv)) (Some (snd kv)) of
        Inl f \<Rightarrow> Inl f
      | Inr ht' \<Rightarrow> inserir_todos ht' ps)"

text \<open>An index the program can hold: \<^verbatim>\<open>NULL\<close>, or a table as \<^verbatim>\<open>criarHash\<close> and
  \<^verbatim>\<open>inserirNaHash\<close> leave it.\<close>

definition indice_ok :: "HashTable option \<Rightarrow> bool" where
  "indice_ok ht = (case ht of None \<Rightarrow> True | Some t \<Rightarrow> tabela_inv t)"

text \<open>The count the tally holds for a suspect: that of the first entry with the
  name, 0 when there is none.\<close>

fun contagem :: "SuspeitoConta list \<Rightarrow> string \<Rightarrow> int" where
  "contagem [] s = 0"
| "contagem (p # prox) s = (if nome p = s then cont p else contagem prox s)"

text \<open>What one node of the ledger does to the tally in
  \<^verbatim>\<open>contar_pistas_por_suspeito\<close>, the lookup of the index being \<open>f\<close>.\<close>

definition somar :: "(string \<Rightarrow> string option) \<Rightarrow> string \<Rightarrow> SuspeitoConta list \<Rightarrow> SuspeitoConta list" where
  "somar f x l = (case f x of None \<Rightarrow> l | Some s \<Rightarrow> conta_suspeito_add l (Some s))"

text \<open>The comparison of two names in \<^verbatim>\<open>verificarSuspeitoFinal\<close> (lines 446-460):
  each is cut to its first 127 bytes by \<^verbatim>\<open>strncpy\<close> and folded by \<^verbatim>\<open>str_lower\<close>.\<close>

definition mesmo_nome :: "string \<Rightarrow> string \<Rightarrow> bool" where
  "mesmo_nome a b = (str_lower (take 127 a) = str_lower (take 127 b))"

text \<open>The judgement as section 4.5 of the specification words it, to be compared
  with \<open>julgar\<close>: the accused name and every name of the tally are folded, the
  first entry whose folded name is the folded accusation gives the count, and the
  verdict is \<open>Culpado\<close> from two clues on.\<close>

definition judge_spec :: "SuspeitoConta list \<Rightarrow> string \<Rightarrow> veredito" where
  "judge_spec tally accusedName =
     (case find (\<lambda>p. str_lower (nome p) = str_lower accusedName) tally of
        None \<Rightarrow> Improcedente
      | Some p \<Rightarrow> if 2 \<le> cont p then Culpado else Inocentado)"

text \<open>A line of input: its text and the newline.\<close>

definition linha :: "string \<Rightarrow> string" where
  "linha s = s @ [CHR 0x0A]"

text \<open>What is observed of a run of the program: the history of visits, the ledger
  in order, and the verdict.\<close>

definition resumo ::
  "(fault + estado \<times> julgamento) option \<Rightarrow> (fault + string list \<times> string list \<times> veredito) option" where
  "resumo r =
     map_option (map_sum id (\<lambda>sj. (historico (fst sj), exibirPistas (pistas (fst sj)),
                                     resultado (snd sj)))) r"

section \<open>Properties\<close>

subsection \<open>The order of strcmp\<close>

lemma strcmp_eq_0 [simp]: "strcmp a b = 0 \<longleftrightarrow> a = b"
  by (induction a b rule: strcmp.induct) auto

lemma strcmp_swap: "strcmp a b < 0 \<longleftrightarrow> 0 < strcmp b a"
  by (induction a b rule: strcmp.induct) (auto dest: less_asym)

lemma strcmp_trans: "strcmp a b < 0 \<Longrightarrow> strcmp b c < 0 \<Longrightarrow> strcmp a c < 0"
proof (induction a b arbitrary: c rule: strcmp.induct)
  case 1
  then show ?case by simp
next
  case (2 y ys)
  then show ?case by (cases c) auto
next
  case (3 x xs)
  then show ?case by simp
next
  case (4 x xs y ys)
  then show ?case by (cases c) (auto split: if_splits)
qed

lemma strcmp_refl [simp]: "strcmp a a = 0"
  by simp

subsection \<open>The ledger\<close>

lemma inserirPista_vazia [simp]: "inserirPista raiz (Some []) = raiz"
  by simp

lemma inserirPista_PNull [simp]:
  "p \<noteq> [] \<Longrightarrow> inserirPista PNull (Some p) = PNode PNull p PNull"
  by simp

lemma inserirPista_PNode [simp]:
  "p \<noteq> [] \<Longrightarrow> inserirPista (PNode l x r) (Some p) =
     (if p = x then PNode l x r
      else if strcmp p x < 0 then PNode (inserirPista l (Some p)) x r
      else PNode l x (inserirPista r (Some p)))"
  by (simp add: Let_def)

declare inserirPista.simps(2) [simp del]

lemma set_inserirPista:
  "p \<noteq> [] \<Longrightarrow> set (exibirPistas (inserirPista t (Some p))) = insert p (set (exibirPistas t))"
  by (induction t) auto

lemma ordenada_PNode:
  "ordenada (PNode l x r) \<longleftrightarrow>
     ordenada l \<and> ordenada r \<and>
     (\<forall>y\<in>set (exibirPistas l). strcmp y x < 0) \<and>
     (\<forall>y\<in>set (exibirPistas r). strcmp x y < 0)"
  by (auto simp: ordenada_def sorted_wrt_append intro: strcmp_trans)

lemma ordenada_PNull [simp]: "ordenada PNull"
  by (simp add: ordenada_def)

lemma ordenada_inserirPista_Some:
  "ordenada t \<Longrightarrow> p \<noteq> [] \<Longrightarrow> ordenada (inserirPista t (Some p))"
proof (induction t)
  case PNull
  then show ?case by (simp add: ordenada_PNode)
next
  case (PNode l x r)
  from PNode.prems have ol: "ordenada l" and or: "ordenada r"
    by (simp_all add: ordenada_PNode)
  show ?case
  proof (cases "p = x")
    case True
    with PNode.prems show ?thesis by simp
  next
    case False
    show ?thesis
    proof (cases "strcmp p x < 0")
      case True
      with False PNode.prems PNode.IH(1) [OF ol] show ?thesis
        by (simp add: ordenada_PNode set_inserirPista)
    next
      case ge: False
      with False have "0 < strcmp p x" by (simp add: less_le)
      then have "strcmp x p < 0" by (simp add: strcmp_swap)
      with False ge PNode.prems PNode.IH(2) [OF or] show ?thesis
        by (simp add: ordenada_PNode set_inserirPista)
    qed
  qed
qed

lemma ordenada_inserirPista: "ordenada t \<Longrightarrow> ordenada (inserirPista t q)"
proof (cases q)
  case None
  assume "ordenada t"
  with None show ?thesis by simp
next
  case (Some p)
  assume "ordenada t"
  with Some show ?thesis by (cases "p = []") (simp_all add: ordenada_inserirPista_Some)
qed

lemma inserirPista_presente:
  "ordenada t \<Longrightarrow> p \<in> set (exibirPistas t) \<Longrightarrow> inserirPista t (Some p) = t"
proof (induction t)
  case PNull
  then show ?case by simp
next
  case (PNode l x r)
  from PNode.prems have ol: "ordenada l" and or: "ordenada r"
    and lx: "\<forall>y\<in>set (exibirPistas l). strcmp y x < 0"
    and xr: "\<forall>y\<in>set (exibirPistas r). strcmp x y < 0"
    by (simp_all add: ordenada_PNode)
  show ?case
  proof (cases "p = []")
    case True
    then show ?thesis by simp
  next
    case ne: False
    consider "p = x" | "p \<noteq> x" "p \<in> set (exibirPistas l)" | "p \<noteq> x" "p \<in> set (exibirPistas r)"
      using PNode.prems(2) by auto
    then show ?thesis
    proof cases
      case 1
      with ne show ?thesis by simp
    next
      case 2
      with lx have "strcmp p x < 0" by blast
      with ne 2 PNode.IH(1) [OF ol] show ?thesis by simp
    next
      case 3
      with xr have "strcmp x p < 0" by blast
      then have "\<not> strcmp p x < 0" using strcmp_swap [of p x] by simp
      with ne 3 PNode.IH(2) [OF or] show ?thesis by simp
    qed
  qed
qed

lemma inserirPista_ausente:
  "p \<noteq> [] \<Longrightarrow> p \<notin> set (exibirPistas t) \<Longrightarrow> acrescenta_folha p t (inserirPista t (Some p))"
  by (induction t) auto

lemma acrescenta_folha_neq: "acrescenta_folha p t t' \<Longrightarrow> t' \<noteq> t"
  by (induction p t t' rule: acrescenta_folha.induct) auto

lemma coletar_snoc: "coletar (cs @ [c]) = inserirPista (coletar cs) c"
  by (simp add: coletar_def)

lemma ordenada_coletar: "ordenada (coletar cs)"
  by (induction cs rule: rev_induct) (simp_all add: coletar_snoc ordenada_inserirPista, simp add: coletar_def)

lemma set_coletar: "set (exibirPistas (coletar cs)) = {p. p \<noteq> [] \<and> Some p \<in> set cs}"
proof (induction cs rule: rev_induct)
  case Nil
  then show ?case by (simp add: coletar_def)
next
  case (snoc c cs)
  show ?case
  proof (cases c)
    case None
    with snoc show ?thesis by (auto simp: coletar_snoc)
  next
    case (Some p)
    with snoc show ?thesis
      by (cases "p = []") (auto simp: coletar_snoc set_inserirPista)
  qed
qed

lemma sorted_wrt_strcmp_distinct:
  "sorted_wrt (\<lambda>a b. strcmp a b < 0) xs \<Longrightarrow> distinct xs"
  by (induction xs) auto

lemma ordenada_distinct: "ordenada t \<Longrightarrow> distinct (exibirPistas t)"
  by (simp add: ordenada_def sorted_wrt_strcmp_distinct)

lemma sorted_wrt_strcmp_le:
  "sorted_wrt (\<lambda>a b. strcmp a b < 0) xs \<Longrightarrow> sorted_wrt (\<lambda>a b. strcmp a b \<le> 0) xs"
  by (rule sorted_wrt_mono_rel [where P = "\<lambda>a b. strcmp a b < 0"]) auto

text \<open>
  C5. Every ledger the program can hold is \<open>coletar cs\<close> for some sequence of
  inserted clues. Inserting \<open>p\<close> returns the ledger unchanged exactly when \<open>p\<close> is
  empty or already in the ledger, by equality of the bytes (no folding of case:
  the witness inserts "B" next to "b"). Inserting an absent, non-empty clue
  replaces one empty subtree by a leaf holding it, and the tree stays a search
  tree. The in-order enumeration is strictly increasing for \<^verbatim>\<open>strcmp\<close>, hence
  non-decreasing and without repetition, and lists exactly the non-empty clues
  inserted.
\<close>

theorem ledger_insert_idempotent_ordered:
  "(inserirPista (coletar cs) (Some p) = coletar cs
      \<longleftrightarrow> p = [] \<or> p \<in> set (exibirPistas (coletar cs))) \<and>
   (p \<noteq> [] \<and> p \<notin> set (exibirPistas (coletar cs)) \<longrightarrow>
      acrescenta_folha p (coletar cs) (inserirPista (coletar cs) (Some p)) \<and>
      ordenada (inserirPista (coletar cs) (Some p)) \<and>
      set (exibirPistas (inserirPista (coletar cs) (Some p))) =
        insert p (set (exibirPistas (coletar cs)))) \<and>
   sorted_wrt (\<lambda>a b. strcmp a b < 0) (exibirPistas (coletar cs)) \<and>
   sorted_wrt (\<lambda>a b. strcmp a b \<le> 0) (exibirPistas (coletar cs)) \<and>
   distinct (exibirPistas (coletar cs)) \<and>
   set (exibirPistas (coletar cs)) = {c. c \<noteq> [] \<and> Some c \<in> set cs}"
proof -
  let ?t = "coletar cs"
  have ord: "ordenada ?t" by (rule ordenada_coletar)
  have a: "inserirPista ?t (Some p) = ?t \<longleftrightarrow> p = [] \<or> p \<in> set (exibirPistas ?t)"
  proof
    assume eq: "inserirPista ?t (Some p) = ?t"
    show "p = [] \<or> p \<in> set (exibirPistas ?t)"
    proof (rule ccontr)
      assume "\<not> (p = [] \<or> p \<in> set (exibirPistas ?t))"
      then have "acrescenta_folha p ?t (inserirPista ?t (Some p))"
        by (simp add: inserirPista_ausente)
      then have "inserirPista ?t (Some p) \<noteq> ?t" by (rule acrescenta_folha_neq)
      with eq show False by simp
    qed
  next
    assume "p = [] \<or> p \<in> set (exibirPistas ?t)"
    then show "inserirPista ?t (Some p) = ?t"
      using ord by (auto simp: inserirPista_presente)
  qed
  have b: "p \<noteq> [] \<and> p \<notin> set (exibirPistas ?t) \<longrightarrow>
      acrescenta_folha p ?t (inserirPista ?t (Some p)) \<and>
      ordenada (inserirPista ?t (Some p)) \<and>
      set (exibirPistas (inserirPista ?t (Some p))) = insert p (set (exibirPistas ?t))"
    using ord by (simp add: inserirPista_ausente ordenada_inserirPista set_inserirPista)
  have c: "sorted_wrt (\<lambda>a b. strcmp a b < 0) (exibirPistas ?t)"
    using ord by (simp add: ordenada_def)
  from a b c show ?thesis
    by (simp only: sorted_wrt_strcmp_le sorted_wrt_strcmp_distinct set_coletar simp_thms)
qed

theorem ledger_insert_idempotent_ordered_witness:
  "coletar [Some ''b'', Some ''a'', None, Some ''b''] = PNode (PNode PNull ''a'' PNull) ''b'' PNull \<and>
   ''B'' \<noteq> [] \<and> ''B'' \<notin> set (exibirPistas (coletar [Some ''b'', Some ''a'', None, Some ''b''])) \<and>
   acrescenta_folha ''B'' (coletar [Some ''b'', Some ''a'', None, Some ''b''])
     (inserirPista (coletar [Some ''b'', Some ''a'', None, Some ''b'']) (Some ''B'')) \<and>
   exibirPistas (inserirPista (coletar [Some ''b'', Some ''a'', None, Some ''b'']) (Some ''B''))
     = [''B'', ''a'', ''b'']"
  using ledger_insert_idempotent_ordered [of "[Some ''b'', Some ''a'', None, Some ''b'']" "''B''"]
  by (simp add: coletar_def)


subsection \<open>The verdict without clues\<close>

text \<open>
  C8. With an empty ledger \<^verbatim>\<open>verificarSuspeitoFinal\<close> answers that no clue was
  collected and returns at once: whatever the index and the input, no byte of the
  input is read and neither the clues nor the suspects are listed. The index is
  not consulted: on a table with no bucket, where the tally of a ledger with one
  clue divides by zero, the empty ledger still gives its answer.
\<close>

theorem empty_ledger_short_circuits:
  "verificarSuspeitoFinal PNull ht inp =
     Inr \<lparr>resultado = SemPistas, resto = inp,
          pistas_mostradas = [], suspeitos_mostrados = None\<rparr> \<and>
   verificarSuspeitoFinal (PNode PNull ''x'' PNull) (Some \<lparr>buckets = [], tamanho = 0\<rparr>) inp =
     Inl DivisionByZero"
  by (simp add: verificarSuspeitoFinal_def listarSuspeitosHash_def encontrarSuspeito_def
      indice_def)

subsection \<open>Empty clues\<close>

text \<open>
  C9. A clue that is \<^verbatim>\<open>NULL\<close> or the empty string is no clue: \<^verbatim>\<open>criarSala\<close>
  stores \<^verbatim>\<open>NULL\<close> for it; visiting the room built with it (whatever children
  were attached) records the visit, prints that the room has no clue and leaves
  the ledger as it was, without consulting the index; a room whose field holds
  the empty string is visited the same way; and \<^verbatim>\<open>inserirPista\<close> returns any
  ledger unchanged.
\<close>

theorem empty_clue_is_no_clue:
  "c = None \<or> c = Some [] \<Longrightarrow>
     criarSala nm c = SNode (case nm of None \<Rightarrow> [] | Some n \<Rightarrow> n) None SNull SNull \<and>
     (atual st = conectar (criarSala nm c) e d \<or>
      atual st = SNode (case nm of None \<Rightarrow> [] | Some n \<Rightarrow> n) c e d \<longrightarrow>
        visitar ht st =
          Inr (st\<lparr>historico := historico st @ [case nm of None \<Rightarrow> [] | Some n \<Rightarrow> n],
                  saida := saida st @
                    [EstaNaSala (case nm of None \<Rightarrow> [] | Some n \<Rightarrow> n), NenhumaPista]\<rparr>)) \<and>
     inserirPista t c = t"
  by (auto simp: criarSala_def conectar_def visitar_def)

theorem empty_clue_is_no_clue_witness:
  "(Some [] = None \<or> Some [] = Some ([] :: string)) \<and>
   criarSala (Some ''Corredor'') (Some []) = SNode ''Corredor'' None SNull SNull \<and>
   visitar None \<lparr>atual = conectar (criarSala (Some ''Corredor'') (Some [])) SNull SNull,
                  historico = [], pistas = PNode PNull ''x'' PNull, entrada = [], saida = []\<rparr> =
     Inr \<lparr>atual = SNode ''Corredor'' None SNull SNull, historico = [''Corredor''],
          pistas = PNode PNull ''x'' PNull, entrada = [],
          saida = [EstaNaSala ''Corredor'', NenhumaPista]\<rparr> \<and>
   inserirPista (PNode PNull ''x'' PNull) (Some []) = PNode PNull ''x'' PNull"
  using empty_clue_is_no_clue [of "Some []" "Some ''Corredor''"
      "\<lparr>atual = conectar (criarSala (Some ''Corredor'') (Some [])) SNull SNull,
        historico = [], pistas = PNode PNull ''x'' PNull, entrada = [], saida = []\<rparr>"
      SNull SNull None "PNode PNull ''x'' PNull"]
  by (simp add: criarSala_def conectar_def)

subsection \<open>The suspect index\<close>

lemma sobrescrever_None: "sobrescrever es k v = None \<longleftrightarrow> k \<notin> chave ` set es"
  by (induction es) (auto split: option.splits)

lemma sobrescrever_chaves: "sobrescrever es k v = Some es' \<Longrightarrow> map chave es' = map chave es"
  by (induction es arbitrary: es') (auto split: if_splits option.splits)

lemma procurar_sobrescrever:
  "sobrescrever es k v = Some es' \<Longrightarrow>
     procurar es' k' = (if k' = k then Some v else procurar es k')"
  by (induction es arbitrary: es') (auto split: if_splits option.splits)

lemma procurar_None: "procurar es k = None \<longleftrightarrow> k \<notin> chave ` set es"
  by (induction es) auto

lemma length_concat_update:
  "i < length bs \<Longrightarrow> length (concat (bs[i := c])) + length (bs ! i) = length (concat bs) + length c"
proof (induction bs arbitrary: i)
  case Nil
  then show ?case by simp
next
  case (Cons b bs)
  show ?case
  proof (cases i)
    case 0
    then show ?thesis by simp
  next
    case (Suc j)
    with Cons.prems have "j < length bs" by simp
    from Cons.IH [OF this] Suc show ?thesis by simp
  qed
qed

lemma set_concat_update:
  "i < length bs \<Longrightarrow> set (bs ! i) \<subseteq> set c \<Longrightarrow>
     set (concat (bs[i := c])) = set (concat bs) \<union> set c"
proof (induction bs arbitrary: i)
  case Nil
  then show ?case by simp
next
  case (Cons b bs)
  then show ?case by (cases i) auto
qed

lemma distinct_concat_por_indice:
  "(\<And>i x. i < length bs \<Longrightarrow> x \<in> set (bs ! i) \<Longrightarrow> f x = i) \<Longrightarrow>
   (\<And>i. i < length bs \<Longrightarrow> distinct (bs ! i)) \<Longrightarrow> distinct (concat bs)"
proof (induction bs rule: rev_induct)
  case Nil
  then show ?case by simp
next
  case (snoc b bs)
  have ih: "distinct (concat bs)"
  proof (rule snoc.IH)
    fix i x assume "i < length bs" "x \<in> set (bs ! i)"
    with snoc.prems(1) [of i x] show "f x = i" by (simp add: nth_append)
  next
    fix i assume "i < length bs"
    with snoc.prems(2) [of i] show "distinct (bs ! i)" by (simp add: nth_append)
  qed
  have db: "distinct b" using snoc.prems(2) [of "length bs"] by simp
  have fb: "\<And>x. x \<in> set b \<Longrightarrow> f x = length bs"
    using snoc.prems(1) [of "length bs"] by simp
  have fbs: "\<And>x. x \<in> set (concat bs) \<Longrightarrow> f x < length bs"
  proof -
    fix x assume "x \<in> set (concat bs)"
    then obtain ys where "ys \<in> set bs" "x \<in> set ys" by auto
    then obtain i where "i < length bs" "bs ! i = ys" by (auto simp: in_set_conv_nth)
    with \<open>x \<in> set ys\<close> snoc.prems(1) [of i x] show "f x < length bs"
      by (simp add: nth_append)
  qed
  from ih db fb fbs show ?case by fastforce
qed

lemma tabela_inv_iff:
  "tabela_inv t \<longleftrightarrow>
     0 < tamanho t \<and> length (buckets t) = tamanho t \<and>
     (\<forall>i<tamanho t. distinct (map chave (buckets t ! i)) \<and>
        (\<forall>e\<in>set (buckets t ! i). indice t (chave e) = Inr i))"
  by (auto simp: tabela_inv_def list_all_iff)

lemma indice_inv:
  "tabela_inv t \<Longrightarrow> indice t k = Inr (unat (hash_djb2 k) mod tamanho t)"
  by (simp add: tabela_inv_iff indice_def Let_def)

lemma indice_buckets_update [simp]: "indice (t\<lparr>buckets := bs\<rparr>) k =
   (if tamanho t = 0 then Inl DivisionByZero
    else if unat (hash_djb2 k) mod tamanho t < length bs
         then Inr (unat (hash_djb2 k) mod tamanho t) else Inl OutOfBounds)"
  by (simp add: indice_def Let_def)

lemma tabela_inv_chaves_distinct:
  assumes "tabela_inv t"
  shows "distinct (map chave (entradas t))"
proof -
  let ?bs = "map (map chave) (buckets t)"
  have "distinct (concat ?bs)"
  proof (rule distinct_concat_por_indice [where f = "\<lambda>k. unat (hash_djb2 k) mod tamanho t"])
    fix i x assume "i < length ?bs" "x \<in> set (?bs ! i)"
    with assms show "unat (hash_djb2 x) mod tamanho t = i"
      by (auto simp: tabela_inv_iff indice_def Let_def split: if_splits)
  next
    fix i assume "i < length ?bs"
    with assms show "distinct (?bs ! i)" by (simp add: tabela_inv_iff)
  qed
  then show ?thesis by (simp add: entradas_def map_concat)
qed

lemma chave_na_tabela:
  assumes "tabela_inv t"
  shows "k \<in> chave ` set (entradas t) \<longleftrightarrow>
         k \<in> chave ` set (buckets t ! (unat (hash_djb2 k) mod tamanho t))"
proof
  assume "k \<in> chave ` set (entradas t)"
  then obtain e b where e: "e \<in> set b" "b \<in> set (buckets t)" "chave e = k"
    by (auto simp: entradas_def)
  then obtain i where i: "i < length (buckets t)" "buckets t ! i = b"
    by (auto simp: in_set_conv_nth)
  with assms e have "indice t k = Inr i" by (auto simp: tabela_inv_iff)
  with assms have "i = unat (hash_djb2 k) mod tamanho t" by (simp add: indice_inv)
  with e i show "k \<in> chave ` set (buckets t ! (unat (hash_djb2 k) mod tamanho t))" by auto
next
  let ?h = "unat (hash_djb2 k) mod tamanho t"
  assume "k \<in> chave ` set (buckets t ! ?h)"
  then obtain e where e: "e \<in> set (buckets t ! ?h)" "chave e = k" by auto
  from assms have "?h < length (buckets t)" by (simp add: tabela_inv_iff)
  then have "buckets t ! ?h \<in> set (buckets t)" by (rule nth_mem)
  with e have "e \<in> set (entradas t)" by (auto simp: entradas_def)
  with e show "k \<in> chave ` set (entradas t)" by auto
qed

lemma encontrarSuspeito_inv:
  "tabela_inv t \<Longrightarrow>
     encontrarSuspeito (Some t) (Some k) =
       Inr (procurar (buckets t ! (unat (hash_djb2 k) mod tamanho t)) k)"
  by (simp add: encontrarSuspeito_def indice_inv)

lemma inserirNaHash_inv:
  assumes inv: "tabela_inv t"
  shows "\<exists>t'. inserirNaHash (Some t) (Some k) (Some v) = Inr (Some t') \<and> tabela_inv t' \<and>
           (\<forall>k'. encontrarSuspeito (Some t') (Some k') =
                  (if k' = k then Inr (Some v) else encontrarSuspeito (Some t) (Some k'))) \<and>
           chave ` set (entradas t') = insert k (chave ` set (entradas t)) \<and>
           length (entradas t') =
             (if k \<in> chave ` set (entradas t) then length (entradas t)
              else Suc (length (entradas t)))"
proof -
  let ?n = "tamanho t"
  let ?bs = "buckets t"
  let ?ix = "\<lambda>k. unat (hash_djb2 k) mod ?n"
  let ?h = "?ix k"
  from inv have n: "0 < ?n" and len: "length ?bs = ?n" by (simp_all add: tabela_inv_iff)
  from n len have h: "?h < length ?bs" by simp
  from inv have dist: "\<And>i. i < ?n \<Longrightarrow> distinct (map chave (?bs ! i))"
    and own: "\<And>i e. i < ?n \<Longrightarrow> e \<in> set (?bs ! i) \<Longrightarrow> ?ix (chave e) = i"
    by (auto simp: tabela_inv_iff indice_def Let_def split: if_splits)
  show ?thesis
  proof (cases "sobrescrever (?bs ! ?h) k v")
    case (Some c)
    let ?t' = "t\<lparr>buckets := ?bs[?h := c]\<rparr>"
    from Some have keys: "map chave c = map chave (?bs ! ?h)" by (rule sobrescrever_chaves)
    then have kset: "chave ` set c = chave ` set (?bs ! ?h)" by (metis set_map)
    from Some have res: "inserirNaHash (Some t) (Some k) (Some v) = Inr (Some ?t')"
      using inv by (simp add: inserirNaHash_def indice_inv)
    have inv': "tabela_inv ?t'"
      unfolding tabela_inv_iff
    proof (intro conjI allI impI)
      show "0 < tamanho ?t'" using n by simp
      show "length (buckets ?t') = tamanho ?t'" using len by simp
    next
      fix i assume "i < tamanho ?t'"
      then have i: "i < ?n" by simp
      show "distinct (map chave (buckets ?t' ! i))"
        using dist [OF i] i len keys by (cases "i = ?h") simp_all
      show "\<forall>e\<in>set (buckets ?t' ! i). indice ?t' (chave e) = Inr i"
      proof
        fix e assume e: "e \<in> set (buckets ?t' ! i)"
        have "?ix (chave e) = i"
        proof (cases "i = ?h")
          case True
          with e h have "chave e \<in> chave ` set c" by simp
          with kset obtain e' where "e' \<in> set (?bs ! ?h)" "chave e' = chave e" by auto
          with own [of ?h e'] n True show ?thesis by simp
        next
          case False
          with e h have "e \<in> set (?bs ! i)" by simp
          with own [OF i] show ?thesis by simp
        qed
        with n len i show "indice ?t' (chave e) = Inr i" by simp
      qed
    qed
    have look: "encontrarSuspeito (Some ?t') (Some k') =
                  (if k' = k then Inr (Some v) else encontrarSuspeito (Some t) (Some k'))" for k'
    proof (cases "?ix k' = ?h")
      case True
      with h n len procurar_sobrescrever [OF Some, of k'] show ?thesis
        by (simp add: encontrarSuspeito_inv [OF inv] encontrarSuspeito_inv [OF inv'])
    next
      case False
      then have "k' \<noteq> k" by auto
      with False h n len show ?thesis
        by (simp add: encontrarSuspeito_inv [OF inv] encontrarSuspeito_inv [OF inv'])
    qed
    have "map (map chave) (?bs[?h := c]) = map (map chave) ?bs"
      using keys h by (simp add: list_eq_iff_nth_eq nth_list_update)
    then have same: "map chave (entradas ?t') = map chave (entradas t)"
      by (simp add: entradas_def map_concat)
    from Some have "k \<in> chave ` set (?bs ! ?h)"
      using sobrescrever_None [of "?bs ! ?h" k v] by simp
    then have kin: "k \<in> chave ` set (entradas t)" by (simp add: chave_na_tabela [OF inv])
    from same have "chave ` set (entradas ?t') = chave ` set (entradas t)" by (metis set_map)
    moreover from same have "length (entradas ?t') = length (entradas t)" by (metis length_map)
    ultimately show ?thesis using res inv' look kin by auto
  next
    case None
    let ?new = "\<lparr>chave = k, suspeito = v\<rparr>"
    let ?t' = "t\<lparr>buckets := ?bs[?h := ?new # ?bs ! ?h]\<rparr>"
    from None have knot: "k \<notin> chave ` set (?bs ! ?h)" by (simp add: sobrescrever_None)
    then have kout: "k \<notin> chave ` set (entradas t)" by (simp add: chave_na_tabela [OF inv])
    from None have res: "inserirNaHash (Some t) (Some k) (Some v) = Inr (Some ?t')"
      using inv by (simp add: inserirNaHash_def indice_inv)
    have inv': "tabela_inv ?t'"
      unfolding tabela_inv_iff
    proof (intro conjI allI impI)
      show "0 < tamanho ?t'" using n by simp
      show "length (buckets ?t') = tamanho ?t'" using len by simp
    next
      fix i assume "i < tamanho ?t'"
      then have i: "i < ?n" by simp
      show "distinct (map chave (buckets ?t' ! i))"
        using dist [OF i] i len knot by (cases "i = ?h") auto
      show "\<forall>e\<in>set (buckets ?t' ! i). indice ?t' (chave e) = Inr i"
      proof
        fix e assume e: "e \<in> set (buckets ?t' ! i)"
        have "?ix (chave e) = i"
        proof (cases "i = ?h")
          case True
          with e h have "e = ?new \<or> e \<in> set (?bs ! ?h)" by simp
          with own [of ?h e] n True show ?thesis by auto
        next
          case False
          with e h have "e \<in> set (?bs ! i)" by simp
          with own [OF i] show ?thesis by simp
        qed
        with n len i show "indice ?t' (chave e) = Inr i" by simp
      qed
    qed
    have look: "encontrarSuspeito (Some ?t') (Some k') =
                  (if k' = k then Inr (Some v) else encontrarSuspeito (Some t) (Some k'))" for k'
    proof (cases "?ix k' = ?h")
      case True
      with h n len show ?thesis
        by (auto simp: encontrarSuspeito_inv [OF inv] encontrarSuspeito_inv [OF inv'])
    next
      case False
      then have "k' \<noteq> k" by auto
      with False h n len show ?thesis
        by (simp add: encontrarSuspeito_inv [OF inv] encontrarSuspeito_inv [OF inv'])
    qed
    have u: "set (concat (?bs[?h := ?new # ?bs ! ?h])) =
               set (concat ?bs) \<union> set (?new # ?bs ! ?h)"
      using h by (intro set_concat_update) auto
    from h have "?bs ! ?h \<in> set ?bs" by (rule nth_mem)
    then have "set (?bs ! ?h) \<subseteq> set (concat ?bs)" by auto
    with u have "set (entradas ?t') = insert ?new (set (entradas t))"
      by (simp add: entradas_def) blast
    then have ks: "chave ` set (entradas ?t') = insert k (chave ` set (entradas t))" by simp
    have "length (entradas ?t') = Suc (length (entradas t))"
      using length_concat_update [of ?h ?bs "?new # ?bs ! ?h"] h by (simp add: entradas_def)
    with res inv' look ks kout show ?thesis by auto
  qed
qed

lemma inserirNaHash_conta:
  assumes "tabela_inv t"
  shows "\<exists>t1. inserirNaHash (Some t) (Some k) (Some v) = Inr (Some t1) \<and>
           length (entradas t1) =
             (if k \<in> chave ` set (entradas t) then length (entradas t)
              else Suc (length (entradas t)))"
proof -
  from inserirNaHash_inv [OF assms, of k v]
  obtain t1 where "inserirNaHash (Some t) (Some k) (Some v) = Inr (Some t1)"
    and "length (entradas t1) =
             (if k \<in> chave ` set (entradas t) then length (entradas t)
              else Suc (length (entradas t)))"
    by (elim exE conjE)
  then show ?thesis by (intro exI [of _ t1] conjI)
qed

lemma map_of_rev_Cons:
  "map_of (rev (kv # ps)) k =
     (case map_of (rev ps) k of
        Some v \<Rightarrow> Some v
      | None \<Rightarrow> if k = fst kv then Some (snd kv) else None)"
  by (cases kv) (simp add: map_of_append map_add_def split: option.splits)

lemma tabela_inv_criarHash: "0 < n \<Longrightarrow> criarHash n = Some t \<Longrightarrow> tabela_inv t"
  by (auto simp: criarHash_def tabela_inv_iff)

lemma inserir_todos_inv:
  "tabela_inv t \<Longrightarrow>
     \<exists>t'. inserir_todos (Some t) ps = Inr (Some t') \<and> tabela_inv t' \<and>
          distinct (map chave (entradas t')) \<and>
          chave ` set (entradas t') = chave ` set (entradas t) \<union> fst ` set ps \<and>
          (\<forall>k. encontrarSuspeito (Some t') (Some k) =
                 (case map_of (rev ps) k of
                    Some v \<Rightarrow> Inr (Some v)
                  | None \<Rightarrow> encontrarSuspeito (Some t) (Some k))) \<and>
          (\<forall>k v. \<exists>t1. inserirNaHash (Some t') (Some k) (Some v) = Inr (Some t1) \<and>
                  length (entradas t1) =
                    (if k \<in> chave ` set (entradas t') then length (entradas t')
                     else Suc (length (entradas t'))))"
proof (induction ps arbitrary: t)
  case Nil
  show ?case
  proof (rule exI [of _ t], intro conjI allI)
    show "inserir_todos (Some t) [] = Inr (Some t)" by simp
    show "tabela_inv t" by (rule Nil)
    show "distinct (map chave (entradas t))" using Nil by (rule tabela_inv_chaves_distinct)
    show "chave ` set (entradas t) = chave ` set (entradas t) \<union> fst ` set []" by simp
    show "encontrarSuspeito (Some t) (Some k) =
            (case map_of (rev []) k of
               Some v \<Rightarrow> Inr (Some v)
             | None \<Rightarrow> encontrarSuspeito (Some t) (Some k))" for k
      by simp
    show "\<exists>t1. inserirNaHash (Some t) (Some k) (Some v) = Inr (Some t1) \<and>
                  length (entradas t1) =
                    (if k \<in> chave ` set (entradas t) then length (entradas t)
                     else Suc (length (entradas t)))" for k v
      using Nil by (rule inserirNaHash_conta)
  qed
next
  case (Cons kv ps)
  from inserirNaHash_inv [OF Cons.prems, of "fst kv" "snd kv"]
  obtain t1 where t1: "inserirNaHash (Some t) (Some (fst kv)) (Some (snd kv)) = Inr (Some t1)"
    and inv1: "tabela_inv t1"
    and look1: "\<forall>k'. encontrarSuspeito (Some t1) (Some k') =
                  (if k' = fst kv then Inr (Some (snd kv)) else encontrarSuspeito (Some t) (Some k'))"
    and keys1: "chave ` set (entradas t1) = insert (fst kv) (chave ` set (entradas t))"
    by (elim exE conjE)
  from Cons.IH [OF inv1]
  obtain t' where t': "inserir_todos (Some t1) ps = Inr (Some t')"
    and inv': "tabela_inv t'"
    and dist': "distinct (map chave (entradas t'))"
    and keys': "chave ` set (entradas t') = chave ` set (entradas t1) \<union> fst ` set ps"
    and look': "\<forall>k. encontrarSuspeito (Some t') (Some k) =
                 (case map_of (rev ps) k of
                    Some v \<Rightarrow> Inr (Some v)
                  | None \<Rightarrow> encontrarSuspeito (Some t1) (Some k))"
    by (elim exE conjE)
  show ?case
  proof (rule exI [of _ t'], intro conjI allI)
    show "inserir_todos (Some t) (kv # ps) = Inr (Some t')" using t1 t' by simp
    show "tabela_inv t'" by (rule inv')
    show "distinct (map chave (entradas t'))" by (rule dist')
    show "chave ` set (entradas t') = chave ` set (entradas t) \<union> fst ` set (kv # ps)"
      using keys' keys1 by simp
    show "encontrarSuspeito (Some t') (Some k) =
                 (case map_of (rev (kv # ps)) k of
                    Some v \<Rightarrow> Inr (Some v)
                  | None \<Rightarrow> encontrarSuspeito (Some t) (Some k))" for k
    proof (cases "map_of (rev ps) k")
      case None
      with look' [rule_format, of k] look1 [rule_format, of k] show ?thesis
        by (simp add: map_of_rev_Cons del: rev.simps)
    next
      case (Some v)
      with look' [rule_format, of k] show ?thesis
        by (simp add: map_of_rev_Cons del: rev.simps)
    qed
    show "\<exists>t1. inserirNaHash (Some t') (Some k) (Some v) = Inr (Some t1) \<and>
                  length (entradas t1) =
                    (if k \<in> chave ` set (entradas t') then length (entradas t')
                     else Suc (length (entradas t')))" for k v
      using inv' by (rule inserirNaHash_conta)
  qed
qed

text \<open>
  C6. From a table as \<^verbatim>\<open>criarHash\<close> and \<^verbatim>\<open>inserirNaHash\<close> leave it, any sequence
  \<open>ps\<close> of calls \<^verbatim>\<open>inserirNaHash(ht, k, v)\<close> ends without fault in a table of
  the same kind, whose keys are pairwise different and are the old keys and the
  keys put; \<^verbatim>\<open>encontrarSuspeito\<close> then returns for every key the value of the
  last call for that key (\<open>map_of (rev ps)\<close>), and what it returned before when no
  call had that key. One more call keeps the number of bindings when its key is
  bound and adds exactly one binding when it is not.
\<close>

theorem index_put_get_last_wins:
  "tabela_inv t \<Longrightarrow>
     \<exists>t'. inserir_todos (Some t) ps = Inr (Some t') \<and> tabela_inv t' \<and>
          distinct (map chave (entradas t')) \<and>
          chave ` set (entradas t') = chave ` set (entradas t) \<union> fst ` set ps \<and>
          (\<forall>k. encontrarSuspeito (Some t') (Some k) =
                 (case map_of (rev ps) k of
                    Some v \<Rightarrow> Inr (Some v)
                  | None \<Rightarrow> encontrarSuspeito (Some t) (Some k))) \<and>
          (\<forall>k v. \<exists>t1. inserirNaHash (Some t') (Some k) (Some v) = Inr (Some t1) \<and>
                  length (entradas t1) =
                    (if k \<in> chave ` set (entradas t') then length (entradas t')
                     else Suc (length (entradas t'))))"
  by (rule inserir_todos_inv)

theorem index_put_get_last_wins_witness:
  "tabela_inv \<lparr>buckets = [[], []], tamanho = 2\<rparr> \<and>
   inserir_todos (Some \<lparr>buckets = [[], []], tamanho = 2\<rparr>)
        [(''a'', ''X''), (''b'', ''Y''), (''a'', ''Z'')] =
     Inr (Some \<lparr>buckets = [[\<lparr>chave = ''a'', suspeito = ''Z''\<rparr>],
                            [\<lparr>chave = ''b'', suspeito = ''Y''\<rparr>]], tamanho = 2\<rparr>) \<and>
   encontrarSuspeito (Some \<lparr>buckets = [[\<lparr>chave = ''a'', suspeito = ''Z''\<rparr>],
                            [\<lparr>chave = ''b'', suspeito = ''Y''\<rparr>]], tamanho = 2\<rparr>) (Some ''a'')
     = Inr (Some ''Z'')"
proof -
  have h: "tabela_inv \<lparr>buckets = [[], []], tamanho = 2\<rparr>"
    by (simp add: tabela_inv_def upt_conv_Cons)
  from index_put_get_last_wins [OF h, of "[(''a'', ''X''), (''b'', ''Y''), (''a'', ''Z'')]"] h
  show ?thesis
    by (simp add: inserirNaHash_def encontrarSuspeito_def indice_def hash_djb2_def)
qed

subsection \<open>The tally\<close>

lemma incrementar_None: "incrementar lista s = None \<longleftrightarrow> s \<notin> nome ` set lista"
  by (induction lista) (auto split: option.splits)

lemma incrementar_nomes: "incrementar lista s = Some l' \<Longrightarrow> map nome l' = map nome lista"
  by (induction lista arbitrary: l') (auto split: if_splits option.splits)

lemma incrementar_contagem:
  "incrementar lista s = Some l' \<Longrightarrow>
     contagem l' s' = (if s' = s then contagem lista s + 1 else contagem lista s')"
  by (induction lista arbitrary: l') (auto split: if_splits option.splits)

lemma incrementar_positivo:
  "incrementar lista s = Some l' \<Longrightarrow> \<forall>p\<in>set lista. 0 < cont p \<Longrightarrow> \<forall>p\<in>set l'. 0 < cont p"
  by (induction lista arbitrary: l') (auto split: if_splits option.splits)

lemma contagem_ausente: "s \<notin> nome ` set lista \<Longrightarrow> contagem lista s = 0"
  by (induction lista) auto

lemma contagem_presente:
  "distinct (map nome lista) \<Longrightarrow> p \<in> set lista \<Longrightarrow> contagem lista (nome p) = cont p"
  by (induction lista) (auto simp: image_iff)

lemma conta_suspeito_add_nomes:
  "nome ` set (conta_suspeito_add lista (Some s)) = insert s (nome ` set lista)"
proof (cases "incrementar lista s")
  case None
  then show ?thesis by (simp add: conta_suspeito_add_def)
next
  case (Some l')
  then have "map nome l' = map nome lista" by (rule incrementar_nomes)
  then have "nome ` set l' = nome ` set lista" by (metis set_map)
  moreover from Some have "s \<in> nome ` set lista"
    using incrementar_None [of lista s] by simp
  ultimately show ?thesis using Some by (auto simp: conta_suspeito_add_def)
qed

lemma conta_suspeito_add_distinct:
  "distinct (map nome lista) \<Longrightarrow> distinct (map nome (conta_suspeito_add lista (Some s)))"
proof (cases "incrementar lista s")
  case None
  assume "distinct (map nome lista)"
  with None show ?thesis
    using incrementar_None [of lista s] by (simp add: conta_suspeito_add_def)
next
  case (Some l')
  assume "distinct (map nome lista)"
  with Some incrementar_nomes [OF Some] show ?thesis by (simp add: conta_suspeito_add_def)
qed

lemma conta_suspeito_add_contagem:
  "contagem (conta_suspeito_add lista (Some s)) s' =
     (if s' = s then contagem lista s + 1 else contagem lista s')"
proof (cases "incrementar lista s")
  case None
  then have "s \<notin> nome ` set lista" by (simp add: incrementar_None)
  then have "contagem lista s = 0" by (rule contagem_ausente)
  with None show ?thesis by (simp add: conta_suspeito_add_def)
next
  case (Some l')
  with incrementar_contagem [OF Some, of s'] show ?thesis by (simp add: conta_suspeito_add_def)
qed

lemma conta_suspeito_add_positivo:
  "\<forall>p\<in>set lista. 0 < cont p \<Longrightarrow> \<forall>p\<in>set (conta_suspeito_add lista (Some s)). 0 < cont p"
proof (cases "incrementar lista s")
  case None
  assume "\<forall>p\<in>set lista. 0 < cont p"
  with None show ?thesis by (simp add: conta_suspeito_add_def)
next
  case (Some l')
  assume "\<forall>p\<in>set lista. 0 < cont p"
  with Some incrementar_positivo [OF Some] show ?thesis by (simp add: conta_suspeito_add_def)
qed

lemma contar_pistas_fold:
  assumes "\<And>x. encontrarSuspeito ht (Some x) = Inr (f x)"
  shows "contar_pistas_por_suspeito t ht lista = Inr (fold (somar f) (exibirPistas t) lista)"
  by (induction t arbitrary: lista) (simp_all add: assms somar_def)

lemma somar_contagem:
  "contagem (somar f x lista) s = contagem lista s + (if f x = Some s then 1 else 0)"
  by (cases "f x") (simp_all add: somar_def conta_suspeito_add_contagem)

lemma somar_nomes:
  "nome ` set (somar f x lista) = nome ` set lista \<union> {s. f x = Some s}"
  by (cases "f x") (simp_all add: somar_def conta_suspeito_add_nomes)

lemma fold_somar_contagem:
  "contagem (fold (somar f) xs lista) s =
     contagem lista s + int (length (filter (\<lambda>x. f x = Some s) xs))"
proof (induction xs arbitrary: lista)
  case Nil
  show ?case by simp
next
  case (Cons x xs)
  show ?case by (simp add: Cons.IH somar_contagem)
qed

lemma fold_somar_distinct:
  "distinct (map nome lista) \<Longrightarrow> distinct (map nome (fold (somar f) xs lista))"
proof (induction xs arbitrary: lista)
  case Nil
  then show ?case by simp
next
  case (Cons x xs)
  have "distinct (map nome (somar f x lista))"
    using Cons.prems by (cases "f x") (simp_all add: somar_def conta_suspeito_add_distinct)
  then show ?case using Cons.IH by simp
qed

lemma fold_somar_positivo:
  "\<forall>p\<in>set lista. 0 < cont p \<Longrightarrow> \<forall>p\<in>set (fold (somar f) xs lista). 0 < cont p"
proof (induction xs arbitrary: lista)
  case Nil
  then show ?case by simp
next
  case (Cons x xs)
  have "\<forall>p\<in>set (somar f x lista). 0 < cont p"
    using Cons.prems by (cases "f x") (simp_all add: somar_def conta_suspeito_add_positivo)
  then show ?case using Cons.IH by simp
qed

lemma fold_somar_nomes:
  "nome ` set (fold (somar f) xs lista) = nome ` set lista \<union> {s. \<exists>x\<in>set xs. f x = Some s}"
proof (induction xs arbitrary: lista)
  case Nil
  show ?case by simp
next
  case (Cons x xs)
  show ?case by (auto simp: Cons.IH somar_nomes)
qed

lemma indice_ok_consulta:
  assumes "indice_ok ht"
  shows "\<exists>f. \<forall>x. encontrarSuspeito ht (Some x) = Inr (f x)"
proof (cases ht)
  case None
  then show ?thesis
    by (intro exI [of _ "\<lambda>_. None"]) (simp add: encontrarSuspeito_def)
next
  case (Some t)
  with assms have "tabela_inv t" by (simp add: indice_ok_def)
  with Some show ?thesis
    by (intro exI [of _ "\<lambda>x. procurar (buckets t ! (unat (hash_djb2 x) mod tamanho t)) x"])
       (simp add: encontrarSuspeito_inv)
qed

lemma distinct_singleton: "distinct xs \<Longrightarrow> set xs = {x} \<Longrightarrow> xs = [x]"
proof (cases xs)
  case Nil
  assume "set xs = {x}"
  with Nil show ?thesis by simp
next
  case (Cons y ys)
  assume d: "distinct xs" and s: "set xs = {x}"
  from s Cons have "y = x" by auto
  moreover from d Cons \<open>y = x\<close> have "x \<notin> set ys" by simp
  moreover from s Cons have "set ys \<subseteq> {x}" by auto
  ultimately show ?thesis using Cons by (cases ys) auto
qed

lemma tally_lista:
  assumes ok: "indice_ok ht"
  shows "\<exists>lista. contar_pistas_por_suspeito (coletar cs) ht [] = Inr lista \<and>
       distinct (map nome lista) \<and>
       (\<forall>s. s \<in> nome ` set lista \<longleftrightarrow>
            (\<exists>c\<in>set (exibirPistas (coletar cs)). encontrarSuspeito ht (Some c) = Inr (Some s))) \<and>
       (\<forall>p\<in>set lista. cont p =
            int (card {c \<in> set (exibirPistas (coletar cs)).
                       encontrarSuspeito ht (Some c) = Inr (Some (nome p))}))"
proof -
  from ok obtain f where f: "\<And>x. encontrarSuspeito ht (Some x) = Inr (f x)"
    using indice_ok_consulta by blast
  let ?xs = "exibirPistas (coletar cs)"
  let ?l = "fold (somar f) ?xs []"
  have dxs: "distinct ?xs" using ordenada_coletar by (rule ordenada_distinct)
  have run: "contar_pistas_por_suspeito (coletar cs) ht [] = Inr ?l"
    using f by (rule contar_pistas_fold)
  have dl: "distinct (map nome ?l)" by (rule fold_somar_distinct) simp
  have names: "nome ` set ?l = {s. \<exists>c\<in>set ?xs. f c = Some s}"
    by (simp add: fold_somar_nomes)
  have count: "cont p = int (card {c \<in> set ?xs. f c = Some (nome p)})" if p: "p \<in> set ?l" for p
  proof -
    have "cont p = contagem ?l (nome p)" using dl p by (simp add: contagem_presente)
    also have "\<dots> = int (length (filter (\<lambda>c. f c = Some (nome p)) ?xs))"
      by (simp add: fold_somar_contagem)
    also have "length (filter (\<lambda>c. f c = Some (nome p)) ?xs) =
                 card {c \<in> set ?xs. f c = Some (nome p)}"
      using dxs by (simp add: distinct_length_filter Collect_conj_eq Int_commute)
    finally show ?thesis .
  qed
  show ?thesis
  proof (rule exI [of _ ?l], intro conjI allI ballI)
    show "contar_pistas_por_suspeito (coletar cs) ht [] = Inr ?l" by (rule run)
    show "distinct (map nome ?l)" by (rule dl)
    show "s \<in> nome ` set ?l \<longleftrightarrow> (\<exists>c\<in>set ?xs. encontrarSuspeito ht (Some c) = Inr (Some s))" for s
      using names by (simp add: f)
    show "cont p = int (card {c \<in> set ?xs. encontrarSuspeito ht (Some c) = Inr (Some (nome p))})"
      if "p \<in> set ?l" for p
      using count [OF that] by (simp add: f)
  qed
qed

text \<open>
  C4. For every ledger the program can hold and every index (a table as the
  program builds it, or \<^verbatim>\<open>NULL\<close>), the tally ends without fault in a list with one
  entry for each suspect that some ledgered clue is bound to, and no other entry;
  the count of an entry is the number of ledgered clues bound to its name. Both
  depend only on the set of clues in the ledger, not on the order in which they
  were inserted or are visited; a clue without binding adds nothing. When the
  ledger holds three clues, two of them bound to \<open>x\<close> and the third unbound, the
  tally is the single entry \<open>x\<close> with count 2.
\<close>

theorem tally_counts_ledgered_clues:
  "indice_ok ht \<Longrightarrow>
     \<exists>lista. contar_pistas_por_suspeito (coletar cs) ht [] = Inr lista \<and>
       distinct (map nome lista) \<and>
       (\<forall>s. s \<in> nome ` set lista \<longleftrightarrow>
            (\<exists>c\<in>set (exibirPistas (coletar cs)). encontrarSuspeito ht (Some c) = Inr (Some s))) \<and>
       (\<forall>p\<in>set lista. cont p =
            int (card {c \<in> set (exibirPistas (coletar cs)).
                       encontrarSuspeito ht (Some c) = Inr (Some (nome p))})) \<and>
       (\<forall>a b c x. set (exibirPistas (coletar cs)) = {a, b, c} \<and> a \<noteq> b \<and>
            encontrarSuspeito ht (Some a) = Inr (Some x) \<and>
            encontrarSuspeito ht (Some b) = Inr (Some x) \<and>
            encontrarSuspeito ht (Some c) = Inr None \<longrightarrow>
            lista = [\<lparr>nome = x, cont = 2\<rparr>])"
proof -
  assume ok: "indice_ok ht"
  let ?xs = "exibirPistas (coletar cs)"
  let ?bound = "\<lambda>c s. encontrarSuspeito ht (Some c) = Inr (Some s)"
  from tally_lista [OF ok, of cs] obtain lista
    where run: "contar_pistas_por_suspeito (coletar cs) ht [] = Inr lista"
      and dl: "distinct (map nome lista)"
      and names: "\<forall>s. s \<in> nome ` set lista \<longleftrightarrow> (\<exists>c\<in>set ?xs. ?bound c s)"
      and count: "\<forall>p\<in>set lista. cont p = int (card {c \<in> set ?xs. ?bound c (nome p)})"
    by (elim exE conjE)
  have three: "lista = [\<lparr>nome = x, cont = 2\<rparr>]"
    if h: "set ?xs = {a, b, c} \<and> a \<noteq> b \<and> ?bound a x \<and> ?bound b x \<and>
           encontrarSuspeito ht (Some c) = Inr None" for a b c x
  proof -
    from h have "\<And>s. (\<exists>c\<in>set ?xs. ?bound c s) \<longleftrightarrow> s = x" by auto
    with names have "set (map nome lista) = {x}" by auto
    with dl have "map nome lista = [x]" by (rule distinct_singleton)
    then obtain p where l: "lista = [p]" and np: "nome p = x" by auto
    from h have "{c \<in> set ?xs. ?bound c x} = {a, b}" by auto
    with count l np h have "cont p = 2" by simp
    with np have "p = \<lparr>nome = x, cont = 2\<rparr>" by simp
    with l show ?thesis by simp
  qed
  show ?thesis
  proof (rule exI [of _ lista], intro conjI allI impI)
    show "contar_pistas_por_suspeito (coletar cs) ht [] = Inr lista" by (rule run)
    show "distinct (map nome lista)" by (rule dl)
    show "s \<in> nome ` set lista \<longleftrightarrow> (\<exists>c\<in>set ?xs. ?bound c s)" for s
      using names by (rule spec)
    show "\<forall>p\<in>set lista. cont p = int (card {c \<in> set ?xs. ?bound c (nome p)})"
      by (rule count)
    show "lista = [\<lparr>nome = x, cont = 2\<rparr>]"
      if "set ?xs = {a, b, c} \<and> a \<noteq> b \<and> ?bound a x \<and> ?bound b x \<and>
           encontrarSuspeito ht (Some c) = Inr None" for a b c x
      using that by (rule three)
  qed
qed

theorem tally_counts_ledgered_clues_witness:
  "indice_ok (Some \<lparr>buckets = [[\<lparr>chave = ''a'', suspeito = ''X''\<rparr>,
                                \<lparr>chave = ''b'', suspeito = ''X''\<rparr>]], tamanho = 1\<rparr>) \<and>
   contar_pistas_por_suspeito (coletar [Some ''b'', Some ''c'', Some ''a''])
     (Some \<lparr>buckets = [[\<lparr>chave = ''a'', suspeito = ''X''\<rparr>,
                        \<lparr>chave = ''b'', suspeito = ''X''\<rparr>]], tamanho = 1\<rparr>) []
     = Inr [\<lparr>nome = ''X'', cont = 2\<rparr>]"
proof -
  have h: "indice_ok (Some \<lparr>buckets = [[\<lparr>chave = ''a'', suspeito = ''X''\<rparr>,
                                \<lparr>chave = ''b'', suspeito = ''X''\<rparr>]], tamanho = 1\<rparr>)"
    by (simp add: indice_ok_def tabela_inv_def indice_def)
  from tally_counts_ledgered_clues [OF h, of "[Some ''b'', Some ''c'', Some ''a'']"] h
  show ?thesis
    by (simp add: coletar_def encontrarSuspeito_def indice_def conta_suspeito_add_def)
qed

subsection \<open>The judgement\<close>

lemma char_eq_char_of_iff: "c = char_of n \<longleftrightarrow> take_bit 8 n = of_char c"
  using char_of_eq_iff [of n c] by auto

lemmas avaliar_char = tolower_def isspace_def char_of_eq_iff char_eq_char_of_iff

lemma buscar_acusado_find:
  "buscar_acusado lista a =
     map_option cont (find (\<lambda>p. str_lower (take 127 (nome p)) = a) lista)"
  by (induction lista) (simp_all add: Let_def)

lemma julgar_find:
  "julgar lista buf =
     (case find (\<lambda>p. mesmo_nome (nome p) buf) lista of
        None \<Rightarrow> Improcedente
      | Some p \<Rightarrow> if 2 \<le> cont p then Culpado else Inocentado)"
  by (simp add: julgar_def buscar_acusado_find mesmo_nome_def Let_def split: option.splits)

lemma find_cong_set:
  "(\<And>x. x \<in> set xs \<Longrightarrow> P x = Q x) \<Longrightarrow> find P xs = find Q xs"
  by (induction xs) simp_all

lemma find_primeiro:
  "(\<forall>q\<in>set pre. \<not> P q) \<Longrightarrow> P p \<Longrightarrow> find P (pre @ p # rest) = Some p"
  by (induction pre) simp_all

text \<open>
  C3, as the code has it. \<open>julgar\<close> compares the accusation with the names of the
  tally after cutting both to 127 bytes and folding the ASCII capitals
  (\<open>mesmo_nome\<close>); without an entry that compares equal the verdict is
  \<open>Improcedente\<close> (Unsupported), otherwise the first such entry decides:
  \<open>Culpado\<close> (Guilty) exactly when its count is at least 2, \<open>Inocentado\<close>
  (InsufficientEvidence) when it is less. When no name has more than 127 bytes
  this is the judgement of the specification.
\<close>

theorem judge_folds_first_127_bytes:
  "julgar lista buf =
     (case find (\<lambda>p. mesmo_nome (nome p) buf) lista of
        None \<Rightarrow> Improcedente
      | Some p \<Rightarrow> if 2 \<le> cont p then Culpado else Inocentado) \<and>
   ((\<forall>p\<in>set lista. length (nome p) \<le> 127) \<and> length buf \<le> 127 \<longrightarrow>
      julgar lista buf = judge_spec lista buf)"
proof
  show "julgar lista buf =
     (case find (\<lambda>p. mesmo_nome (nome p) buf) lista of
        None \<Rightarrow> Improcedente
      | Some p \<Rightarrow> if 2 \<le> cont p then Culpado else Inocentado)"
    by (rule julgar_find)
  show "(\<forall>p\<in>set lista. length (nome p) \<le> 127) \<and> length buf \<le> 127 \<longrightarrow>
      julgar lista buf = judge_spec lista buf"
  proof
    assume h: "(\<forall>p\<in>set lista. length (nome p) \<le> 127) \<and> length buf \<le> 127"
    then have "find (\<lambda>p. mesmo_nome (nome p) buf) lista =
               find (\<lambda>p. str_lower (nome p) = str_lower buf) lista"
      by (intro find_cong_set) (simp add: mesmo_nome_def)
    then show "julgar lista buf = judge_spec lista buf"
      by (simp add: julgar_find judge_spec_def)
  qed
qed

theorem judge_folds_first_127_bytes_witness:
  "length ''GARDENER'' \<le> 127 \<and> length ''BUTLER'' \<le> 127 \<and> length ''butler'' \<le> 127 \<and>
   julgar [\<lparr>nome = ''GARDENER'', cont = 1\<rparr>, \<lparr>nome = ''BUTLER'', cont = 2\<rparr>] ''butler'' = Culpado \<and>
   judge_spec [\<lparr>nome = ''GARDENER'', cont = 1\<rparr>, \<lparr>nome = ''BUTLER'', cont = 2\<rparr>] ''butler'' = Culpado"
  using judge_folds_first_127_bytes
    [of "[\<lparr>nome = ''GARDENER'', cont = 1\<rparr>, \<lparr>nome = ''BUTLER'', cont = 2\<rparr>]" "''butler''"]
  by (simp add: judge_spec_def mesmo_nome_def str_lower_def avaliar_char)

text \<open>
  C3, as the specification has it, fails on a name of 128 bytes: the tally holds
  one entry, 128 times the letter a, with one clue; the accusation is 127 times
  the letter a. No folded name of the tally is the folded accusation, so the
  specification's judgement is \<open>Improcedente\<close>; the code compares the first 127
  bytes, finds the entry and answers \<open>Inocentado\<close>.
\<close>

theorem judge_long_name_counterexample:
  "julgar [\<lparr>nome = replicate 128 (CHR ''a''), cont = 1\<rparr>] (replicate 127 (CHR ''a'')) = Inocentado \<and>
   str_lower (replicate 128 (CHR ''a'')) \<noteq> str_lower (replicate 127 (CHR ''a'')) \<and>
   judge_spec [\<lparr>nome = replicate 128 (CHR ''a''), cont = 1\<rparr>] (replicate 127 (CHR ''a''))
     = Improcedente"
proof -
  have neq: "str_lower (replicate 128 (CHR ''a'')) \<noteq> str_lower (replicate 127 (CHR ''a''))"
  proof
    assume "str_lower (replicate 128 (CHR ''a'')) = str_lower (replicate 127 (CHR ''a''))"
    then have "length (str_lower (replicate 128 (CHR ''a''))) =
               length (str_lower (replicate 127 (CHR ''a'')))" by simp
    then show False by (simp add: str_lower_def)
  qed
  have "take 127 (replicate 128 (CHR ''a'')) = replicate 127 (CHR ''a'')" by simp
  then have "julgar [\<lparr>nome = replicate 128 (CHR ''a''), cont = 1\<rparr>] (replicate 127 (CHR ''a''))
               = Inocentado"
    by (simp add: julgar_def Let_def)
  with neq show ?thesis by (simp add: judge_spec_def)
qed


text \<open>
  C10, as the code has it. The tally keeps one entry for each name, compared byte
  by byte: two different names, each with a ledgered clue bound to it, have two
  entries, each with the count of the clues bound to exactly that name (so names
  that differ only in the case of letters are counted apart). The judgement
  takes the count of the first entry of the tally that \<open>mesmo_nome\<close> finds equal
  to the accusation (both cut to 127 bytes and folded); the entries after it,
  equal or not, change nothing: counts are never added.
\<close>

theorem tally_exact_judge_first_match:
  "(indice_ok ht \<longrightarrow>
     (\<exists>lista. contar_pistas_por_suspeito (coletar cs) ht [] = Inr lista \<and>
        (\<forall>n1 n2. n1 \<noteq> n2 \<and>
           (\<exists>c\<in>set (exibirPistas (coletar cs)). encontrarSuspeito ht (Some c) = Inr (Some n1)) \<and>
           (\<exists>c\<in>set (exibirPistas (coletar cs)). encontrarSuspeito ht (Some c) = Inr (Some n2)) \<longrightarrow>
           (\<exists>p1\<in>set lista. \<exists>p2\<in>set lista. p1 \<noteq> p2 \<and> nome p1 = n1 \<and> nome p2 = n2 \<and>
              cont p1 = int (card {c \<in> set (exibirPistas (coletar cs)).
                                     encontrarSuspeito ht (Some c) = Inr (Some n1)}) \<and>
              cont p2 = int (card {c \<in> set (exibirPistas (coletar cs)).
                                     encontrarSuspeito ht (Some c) = Inr (Some n2)}))))) \<and>
   ((\<forall>q\<in>set antes. \<not> mesmo_nome (nome q) buf) \<and> mesmo_nome (nome p) buf \<longrightarrow>
      julgar (antes @ p # depois_de_p) buf = (if 2 \<le> cont p then Culpado else Inocentado))"
proof (intro conjI impI)
  assume ok: "indice_ok ht"
  let ?xs = "exibirPistas (coletar cs)"
  let ?bound = "\<lambda>c s. encontrarSuspeito ht (Some c) = Inr (Some s)"
  from tally_lista [OF ok, of cs] obtain lista
    where run: "contar_pistas_por_suspeito (coletar cs) ht [] = Inr lista"
      and names: "\<forall>s. s \<in> nome ` set lista \<longleftrightarrow> (\<exists>c\<in>set ?xs. ?bound c s)"
      and count: "\<forall>p\<in>set lista. cont p = int (card {c \<in> set ?xs. ?bound c (nome p)})"
    by (elim exE conjE)
  have two: "\<exists>p1\<in>set lista. \<exists>p2\<in>set lista. p1 \<noteq> p2 \<and> nome p1 = n1 \<and> nome p2 = n2 \<and>
              cont p1 = int (card {c \<in> set ?xs. ?bound c n1}) \<and>
              cont p2 = int (card {c \<in> set ?xs. ?bound c n2})"
    if h: "n1 \<noteq> n2 \<and> (\<exists>c\<in>set ?xs. ?bound c n1) \<and> (\<exists>c\<in>set ?xs. ?bound c n2)" for n1 n2
  proof -
    from h names have "n1 \<in> nome ` set lista" by blast
    then obtain p1 where p1: "p1 \<in> set lista" "nome p1 = n1" by auto
    from h names have "n2 \<in> nome ` set lista" by blast
    then obtain p2 where p2: "p2 \<in> set lista" "nome p2 = n2" by auto
    from p1 p2 h have "p1 \<noteq> p2" by auto
    moreover from count p1 have "cont p1 = int (card {c \<in> set ?xs. ?bound c n1})" by auto
    moreover from count p2 have "cont p2 = int (card {c \<in> set ?xs. ?bound c n2})" by auto
    ultimately show ?thesis using p1 p2 by blast
  qed
  show "\<exists>lista. contar_pistas_por_suspeito (coletar cs) ht [] = Inr lista \<and>
        (\<forall>n1 n2. n1 \<noteq> n2 \<and> (\<exists>c\<in>set ?xs. ?bound c n1) \<and> (\<exists>c\<in>set ?xs. ?bound c n2) \<longrightarrow>
           (\<exists>p1\<in>set lista. \<exists>p2\<in>set lista. p1 \<noteq> p2 \<and> nome p1 = n1 \<and> nome p2 = n2 \<and>
              cont p1 = int (card {c \<in> set ?xs. ?bound c n1}) \<and>
              cont p2 = int (card {c \<in> set ?xs. ?bound c n2})))"
  proof (rule exI [of _ lista], intro conjI allI impI)
    show "contar_pistas_por_suspeito (coletar cs) ht [] = Inr lista" by (rule run)
    show "\<exists>p1\<in>set lista. \<exists>p2\<in>set lista. p1 \<noteq> p2 \<and> nome p1 = n1 \<and> nome p2 = n2 \<and>
              cont p1 = int (card {c \<in> set ?xs. ?bound c n1}) \<and>
              cont p2 = int (card {c \<in> set ?xs. ?bound c n2})"
      if "n1 \<noteq> n2 \<and> (\<exists>c\<in>set ?xs. ?bound c n1) \<and> (\<exists>c\<in>set ?xs. ?bound c n2)" for n1 n2
      using that by (rule two)
  qed
next
  assume "(\<forall>q\<in>set antes. \<not> mesmo_nome (nome q) buf) \<and> mesmo_nome (nome p) buf"
  then have "find (\<lambda>p. mesmo_nome (nome p) buf) (antes @ p # depois_de_p) = Some p"
    by (intro find_primeiro) simp_all
  then show "julgar (antes @ p # depois_de_p) buf = (if 2 \<le> cont p then Culpado else Inocentado)"
    by (simp add: julgar_find)
qed

theorem tally_exact_judge_first_match_witness:
  "indice_ok (Some \<lparr>buckets = [[\<lparr>chave = ''a'', suspeito = ''Butler''\<rparr>,
                                \<lparr>chave = ''b'', suspeito = ''butler''\<rparr>,
                                \<lparr>chave = ''c'', suspeito = ''Gardener''\<rparr>]], tamanho = 1\<rparr>) \<and>
   contar_pistas_por_suspeito (coletar [Some ''a'', Some ''b'', Some ''c''])
     (Some \<lparr>buckets = [[\<lparr>chave = ''a'', suspeito = ''Butler''\<rparr>,
                        \<lparr>chave = ''b'', suspeito = ''butler''\<rparr>,
                        \<lparr>chave = ''c'', suspeito = ''Gardener''\<rparr>]], tamanho = 1\<rparr>) []
     = Inr [\<lparr>nome = ''Gardener'', cont = 1\<rparr>, \<lparr>nome = ''butler'', cont = 1\<rparr>,
            \<lparr>nome = ''Butler'', cont = 1\<rparr>] \<and>
   \<not> mesmo_nome ''Gardener'' ''BUTLER'' \<and>
   mesmo_nome ''butler'' ''BUTLER'' \<and>
   julgar [\<lparr>nome = ''Gardener'', cont = 1\<rparr>, \<lparr>nome = ''butler'', cont = 1\<rparr>,
           \<lparr>nome = ''Butler'', cont = 1\<rparr>] ''BUTLER''
     = Inocentado"
proof -
  have h: "indice_ok (Some \<lparr>buckets = [[\<lparr>chave = ''a'', suspeito = ''Butler''\<rparr>,
                                \<lparr>chave = ''b'', suspeito = ''butler''\<rparr>,
                                \<lparr>chave = ''c'', suspeito = ''Gardener''\<rparr>]], tamanho = 1\<rparr>)"
    by (simp add: indice_ok_def tabela_inv_def indice_def)
  have m: "mesmo_nome ''butler'' ''BUTLER''" and n: "\<not> mesmo_nome ''Gardener'' ''BUTLER''"
    by (simp_all add: mesmo_nome_def str_lower_def avaliar_char)
  from tally_exact_judge_first_match
    [of "Some \<lparr>buckets = [[\<lparr>chave = ''a'', suspeito = ''Butler''\<rparr>,
                          \<lparr>chave = ''b'', suspeito = ''butler''\<rparr>,
                          \<lparr>chave = ''c'', suspeito = ''Gardener''\<rparr>]], tamanho = 1\<rparr>"
        "[Some ''a'', Some ''b'', Some ''c'']" "[\<lparr>nome = ''Gardener'', cont = 1\<rparr>]" "''BUTLER''"
        "\<lparr>nome = ''butler'', cont = 1\<rparr>" "[\<lparr>nome = ''Butler'', cont = 1\<rparr>]"] h m n
  show ?thesis
    by (simp add: coletar_def encontrarSuspeito_def indice_def conta_suspeito_add_def)
qed

text \<open>
  C10, as the claim words it, fails on a name of 128 bytes. The tally holds, in
  this order, 128 times the letter a with two clues, 127 times the letter A with
  one clue and 127 times the letter a with one clue (the last two names differ
  only in the case of letters and are separate entries); the accusation is 127
  times the letter a. The first entry whose folded name is the folded accusation
  is the second one, with one clue; the code stops at the first entry, equal on
  its first 127 bytes, and answers \<open>Culpado\<close> with its two clues.
\<close>

theorem first_match_long_name_counterexample:
  "julgar [\<lparr>nome = replicate 128 (CHR ''a''), cont = 2\<rparr>,
           \<lparr>nome = replicate 127 (CHR ''A''), cont = 1\<rparr>,
           \<lparr>nome = replicate 127 (CHR ''a''), cont = 1\<rparr>] (replicate 127 (CHR ''a'')) = Culpado \<and>
   find (\<lambda>p. str_lower (nome p) = str_lower (replicate 127 (CHR ''a'')))
     [\<lparr>nome = replicate 128 (CHR ''a''), cont = 2\<rparr>,
      \<lparr>nome = replicate 127 (CHR ''A''), cont = 1\<rparr>,
      \<lparr>nome = replicate 127 (CHR ''a''), cont = 1\<rparr>]
     = Some \<lparr>nome = replicate 127 (CHR ''A''), cont = 1\<rparr>"
proof -
  have neq: "str_lower (replicate 128 (CHR ''a'')) \<noteq> str_lower (replicate 127 (CHR ''a''))"
  proof
    assume "str_lower (replicate 128 (CHR ''a'')) = str_lower (replicate 127 (CHR ''a''))"
    then have "length (str_lower (replicate 128 (CHR ''a''))) =
               length (str_lower (replicate 127 (CHR ''a'')))" by simp
    then show False by (simp add: str_lower_def)
  qed
  have eq: "str_lower (replicate 127 (CHR ''A'')) = str_lower (replicate 127 (CHR ''a''))"
    by (simp add: str_lower_def avaliar_char)
  have "take 127 (replicate 128 (CHR ''a'')) = replicate 127 (CHR ''a'')" by simp
  then have "julgar [\<lparr>nome = replicate 128 (CHR ''a''), cont = 2\<rparr>,
                     \<lparr>nome = replicate 127 (CHR ''A''), cont = 1\<rparr>,
                     \<lparr>nome = replicate 127 (CHR ''a''), cont = 1\<rparr>] (replicate 127 (CHR ''a''))
               = Culpado"
    by (simp add: julgar_def Let_def)
  with neq eq show ?thesis by simp
qed

subsection \<open>The exploration loop\<close>

lemma visitar_ok:
  assumes "indice_ok ht" and "atual st = SNode nm p e d"
  shows "\<exists>st1. visitar ht st = Inr st1 \<and> atual st1 = atual st \<and> entrada st1 = entrada st \<and>
           historico st1 = historico st @ [nm] \<and> pistas st1 = inserirPista (pistas st) p"
proof -
  from assms(1) obtain f where f: "\<And>x. encontrarSuspeito ht (Some x) = Inr (f x)"
    using indice_ok_consulta by blast
  show ?thesis
  proof (cases p)
    case None
    with assms(2) show ?thesis by (simp add: visitar_def)
  next
    case (Some c)
    with assms(2) show ?thesis by (cases "c = []") (simp_all add: visitar_def f)
  qed
qed

lemma comandar_esquerda_ausente:
  assumes "atual st = SNode nm p SNull d"
    and "escolha_de (fst (ler_linha 128 (entrada st))) = CHR ''e''"
  shows "comandar st =
           Inr (True, st\<lparr>entrada := snd (ler_linha 128 (entrada st)),
                         saida := saida st @ [Opcoes False (d \<noteq> SNull), EsquerdaIndisponivel]\<rparr>)"
  using assms by (simp add: comandar_def Let_def)

lemma comandar_direita_ausente:
  assumes "atual st = SNode nm p e SNull"
    and "escolha_de (fst (ler_linha 128 (entrada st))) = CHR ''d''"
  shows "comandar st =
           Inr (True, st\<lparr>entrada := snd (ler_linha 128 (entrada st)),
                         saida := saida st @ [Opcoes (e \<noteq> SNull) False, DireitaIndisponivel]\<rparr>)"
  using assms by (simp add: comandar_def Let_def)

lemma comandar_historico:
  "comandar st = Inr (b, st') \<Longrightarrow> historico st' = historico st"
  by (cases "atual st") (auto simp: comandar_def Let_def split: if_splits)

lemma comandar_ok:
  "atual st = SNode nm p e d \<Longrightarrow> \<exists>b st'. comandar st = Inr (b, st')"
  by (auto simp: comandar_def Let_def)

lemma passo_historico:
  assumes "indice_ok ht" and "atual st = SNode nm p e d"
  shows "\<exists>b st'. passo ht st = Inr (b, st') \<and> historico st' = historico st @ [nm]"
proof -
  from visitar_ok [OF assms] obtain st1
    where v: "visitar ht st = Inr st1" "atual st1 = atual st" "historico st1 = historico st @ [nm]"
    by blast
  from comandar_ok [of st1 nm p e d] v assms(2) obtain b st'
    where c: "comandar st1 = Inr (b, st')" by auto
  from comandar_historico [OF c] v c show ?thesis by (simp add: passo_def)
qed

text \<open>
  The defect behind C2, for every state. A turn of the loop is the visit
  (\<open>visitar\<close>), which records the room in the history, and then the command
  (\<open>comandar\<close>). In a room without left child, when the line read asks for the
  left, the command adds nothing to the history, leaves the same room current,
  prints as its last message that the left path is not available, and ends in
  \<^verbatim>\<open>continue\<close>. That \<^verbatim>\<open>continue\<close> goes back to the top of the loop, where the
  block that records a visit (lines 306-314) runs again: the next turn, whatever
  is read in it, records the same room once more, although nobody entered it.
  The same holds for the right.
\<close>

theorem invalid_move_keeps_cursor_relogs_room:
  "indice_ok ht \<Longrightarrow> atual st = SNode nm p e d \<Longrightarrow>
     (e = SNull \<and> escolha_de (fst (ler_linha 128 (entrada st))) = CHR ''e'' \<longrightarrow>
        (\<exists>sv st1. visitar ht st = Inr sv \<and> historico sv = historico st @ [nm] \<and>
           comandar sv = Inr (True, st1) \<and> passo ht st = Inr (True, st1) \<and>
           atual st1 = atual st \<and> historico st1 = historico sv \<and>
           last (saida st1) = EsquerdaIndisponivel \<and>
           (\<exists>b st2. passo ht st1 = Inr (b, st2) \<and> historico st2 = historico st1 @ [nm]))) \<and>
     (d = SNull \<and> escolha_de (fst (ler_linha 128 (entrada st))) = CHR ''d'' \<longrightarrow>
        (\<exists>sv st1. visitar ht st = Inr sv \<and> historico sv = historico st @ [nm] \<and>
           comandar sv = Inr (True, st1) \<and> passo ht st = Inr (True, st1) \<and>
           atual st1 = atual st \<and> historico st1 = historico sv \<and>
           last (saida st1) = DireitaIndisponivel \<and>
           (\<exists>b st2. passo ht st1 = Inr (b, st2) \<and> historico st2 = historico st1 @ [nm])))"
proof (intro conjI impI)
  assume ok: "indice_ok ht" and at: "atual st = SNode nm p e d"
  from visitar_ok [OF ok at] obtain sv
    where v: "visitar ht st = Inr sv" "atual sv = atual st" "entrada sv = entrada st"
      "historico sv = historico st @ [nm]"
    by blast
  {
    assume h: "e = SNull \<and> escolha_de (fst (ler_linha 128 (entrada st))) = CHR ''e''"
    let ?st1 = "sv\<lparr>entrada := snd (ler_linha 128 (entrada sv)),
                    saida := saida sv @ [Opcoes False (d \<noteq> SNull), EsquerdaIndisponivel]\<rparr>"
    from h v at have c: "comandar sv = Inr (True, ?st1)"
      by (intro comandar_esquerda_ausente [of sv nm p d]) simp_all
    with v have p1: "passo ht st = Inr (True, ?st1)" by (simp add: passo_def)
    from v at have at1: "atual ?st1 = SNode nm p e d" by simp
    from passo_historico [OF ok at1]
    have "\<exists>b st2. passo ht ?st1 = Inr (b, st2) \<and> historico st2 = historico ?st1 @ [nm]" .
    with c p1 v show "\<exists>sv st1. visitar ht st = Inr sv \<and> historico sv = historico st @ [nm] \<and>
           comandar sv = Inr (True, st1) \<and> passo ht st = Inr (True, st1) \<and>
           atual st1 = atual st \<and> historico st1 = historico sv \<and>
           last (saida st1) = EsquerdaIndisponivel \<and>
           (\<exists>b st2. passo ht st1 = Inr (b, st2) \<and> historico st2 = historico st1 @ [nm])"
      by (intro exI [of _ sv] exI [of _ ?st1]) simp
  }
  {
    assume h: "d = SNull \<and> escolha_de (fst (ler_linha 128 (entrada st))) = CHR ''d''"
    let ?st1 = "sv\<lparr>entrada := snd (ler_linha 128 (entrada sv)),
                    saida := saida sv @ [Opcoes (e \<noteq> SNull) False, DireitaIndisponivel]\<rparr>"
    from h v at have c: "comandar sv = Inr (True, ?st1)"
      by (intro comandar_direita_ausente [of sv nm p e]) simp_all
    with v have p1: "passo ht st = Inr (True, ?st1)" by (simp add: passo_def)
    from v at have at1: "atual ?st1 = SNode nm p e d" by simp
    from passo_historico [OF ok at1]
    have "\<exists>b st2. passo ht ?st1 = Inr (b, st2) \<and> historico st2 = historico ?st1 @ [nm]" .
    with c p1 v show "\<exists>sv st1. visitar ht st = Inr sv \<and> historico sv = historico st @ [nm] \<and>
           comandar sv = Inr (True, st1) \<and> passo ht st = Inr (True, st1) \<and>
           atual st1 = atual st \<and> historico st1 = historico sv \<and>
           last (saida st1) = DireitaIndisponivel \<and>
           (\<exists>b st2. passo ht st1 = Inr (b, st2) \<and> historico st2 = historico st1 @ [nm])"
      by (intro exI [of _ sv] exI [of _ ?st1]) simp
  }
qed

theorem invalid_move_keeps_cursor_relogs_room_witness:
  "indice_ok None \<and>
   escolha_de (fst (ler_linha 128 (linha ''e'' @ linha ''s''))) = CHR ''e'' \<and>
   passo None \<lparr>atual = SNode ''Quarto'' None SNull SNull, historico = [''Corredor''],
                pistas = PNull, entrada = linha ''e'' @ linha ''s'', saida = []\<rparr> =
     Inr (True, \<lparr>atual = SNode ''Quarto'' None SNull SNull,
                  historico = [''Corredor'', ''Quarto''],
                  pistas = PNull, entrada = linha ''s'',
                  saida = [EstaNaSala ''Quarto'', NenhumaPista, Opcoes False False,
                           EsquerdaIndisponivel]\<rparr>) \<and>
   passo None \<lparr>atual = SNode ''Quarto'' None SNull SNull,
                historico = [''Corredor'', ''Quarto''],
                pistas = PNull, entrada = linha ''s'',
                saida = [EstaNaSala ''Quarto'', NenhumaPista, Opcoes False False,
                         EsquerdaIndisponivel]\<rparr> =
     Inr (False, \<lparr>atual = SNode ''Quarto'' None SNull SNull,
                   historico = [''Corredor'', ''Quarto'', ''Quarto''],
                   pistas = PNull, entrada = [],
                   saida = [EstaNaSala ''Quarto'', NenhumaPista, Opcoes False False,
                            EsquerdaIndisponivel, EstaNaSala ''Quarto'', NenhumaPista,
                            Opcoes False False, SaindoDaExploracao]\<rparr>)"
proof -
  have h: "indice_ok None" by (simp add: indice_ok_def)
  from invalid_move_keeps_cursor_relogs_room
    [OF h, of "\<lparr>atual = SNode ''Quarto'' None SNull SNull, historico = [''Corredor''],
                pistas = PNull, entrada = linha ''e'' @ linha ''s'', saida = []\<rparr>"
        "''Quarto''" None SNull SNull] h
  show ?thesis
    by (simp add: passo_def visitar_def comandar_def ler_linha_def fgets_def linha_def
        avaliar_char Let_def)
qed

lemma explorar_loop_numeral:
  "explorar_loop (numeral k) ht st =
     (case passo ht st of
        Inl f \<Rightarrow> Some (Inl f)
      | Inr bs \<Rightarrow>
          if fst bs then explorar_loop (pred_numeral k) ht (snd bs) else Some (Inr (snd bs)))"
  by (simp add: numeral_eq_Suc split: sum.splits prod.splits)

lemmas avaliar_jogo =
  main_prog_def explorar_loop_numeral indice_do_jogo_def depois_def inserirNaHash_def
  criarHash_def indice_def hash_djb2_def lencol_manchado_def livro_pagina_def
  bibliotecario_def explorarSalas_def mansao_def criarSala_def conectar_def passo_def
  visitar_def comandar_def ler_linha_def fgets_def linha_def avaliar_char
  encontrarSuspeito_def verificarSuspeitoFinal_def listarSuspeitosHash_def julgar_def
  str_lower_def conta_suspeito_add_def resumo_def Let_def

text \<open>
  C2. A refused move must leave the history of visits as it is. The program calls
  the list the history of the rooms visited (line 364) and records a visit on
  entering a room, but a refused move sends the loop back to the block that
  records the visit. In the reference mansion, after the commands right and left
  the player is in the bedroom ("Quarto"), which has no children: with one more
  left, refused, the history printed at the exit holds the bedroom twice; with
  one more right, refused, it does too; without the refused command it holds the
  bedroom once.
\<close>

theorem refused_move_relogs_room:
  "resumo (main_prog 4 (linha ''d'' @ linha ''e'' @ linha ''e'' @ linha ''s'')) =
     Some (Inr ([''Hall de Entrada'', ''Corredor'', ''Quarto'', ''Quarto''],
                [lencol_manchado, ''Pegadas de lama''], AcusacaoCancelada)) \<and>
   resumo (main_prog 4 (linha ''d'' @ linha ''e'' @ linha ''d'' @ linha ''s'')) =
     Some (Inr ([''Hall de Entrada'', ''Corredor'', ''Quarto'', ''Quarto''],
                [lencol_manchado, ''Pegadas de lama''], AcusacaoCancelada)) \<and>
   resumo (main_prog 4 (linha ''d'' @ linha ''e'' @ linha ''s'')) =
     Some (Inr ([''Hall de Entrada'', ''Corredor'', ''Quarto''],
                [lencol_manchado, ''Pegadas de lama''], AcusacaoCancelada))"
  by (simp add: avaliar_jogo)

lemma ler_linha_eof: "ler_linha tam [] = ([], [])"
  by (simp add: ler_linha_def fgets_def)

lemma passo_eof:
  assumes "indice_ok ht" and "atual st = SNode nm p e d" and "entrada st = []"
  shows "\<exists>st'. passo ht st = Inr (True, st') \<and> atual st' = atual st \<and> entrada st' = [] \<and>
           historico st' = historico st @ [nm] \<and> last (saida st') = OpcaoInvalida"
proof -
  from visitar_ok [OF assms(1,2)] obtain sv
    where v: "visitar ht st = Inr sv" "atual sv = atual st" "entrada sv = entrada st"
      "historico sv = historico st @ [nm]"
    by blast
  let ?st' = "sv\<lparr>entrada := [], saida := saida sv @ [Opcoes (e \<noteq> SNull) (d \<noteq> SNull), OpcaoInvalida]\<rparr>"
  from v assms(2,3) have "comandar sv = Inr (True, ?st')"
    by (simp add: comandar_def ler_linha_eof Let_def)
  with v show ?thesis by (intro exI [of _ ?st']) (simp add: passo_def)
qed

lemma explorar_loop_eof:
  "indice_ok ht \<Longrightarrow> atual st = SNode nm p e d \<Longrightarrow> entrada st = [] \<Longrightarrow>
     explorar_loop fuel ht st = None"
proof (induction fuel arbitrary: st)
  case 0
  show ?case by simp
next
  case (Suc fuel)
  from passo_eof [OF Suc.prems] obtain st'
    where s: "passo ht st = Inr (True, st')" "atual st' = atual st" "entrada st' = []"
    by blast
  with Suc.prems have "explorar_loop fuel ht st' = None"
    by (intro Suc.IH) simp_all
  with s show ?case by simp
qed

lemma indice_do_jogo_ok: "\<exists>t. indice_do_jogo = Inr (Some t) \<and> tabela_inv t"
proof -
  let ?t0 = "\<lparr>buckets = replicate 31 [], tamanho = 31\<rparr>"
  let ?ps = "[(''Pegadas de lama'', ''Jardineiro''), (''Gaveta perdida'', ''Jardineiro''),
              (''Chave perdida'', ''Empregado''), (lencol_manchado, ''Empregado''),
              (livro_pagina, bibliotecario)]"
  have "tabela_inv ?t0" by (rule tabela_inv_criarHash [of 31]) (simp_all add: criarHash_def)
  from inserir_todos_inv [OF this, of ?ps] obtain t'
    where run: "inserir_todos (Some ?t0) ?ps = Inr (Some t')" and inv: "tabela_inv t'"
    by (elim exE conjE)
  have eq: "indice_do_jogo = inserir_todos (Some ?t0) ?ps"
    by (simp add: indice_do_jogo_def depois_def criarHash_def split: sum.splits)
  have "indice_do_jogo = Inr (Some t')" by (simp only: eq run)
  with inv show ?thesis by blast
qed

text \<open>
  C7. At the end of the input \<^verbatim>\<open>ler_linha\<close> leaves the empty string, which
  \<^verbatim>\<open>explorarSalas\<close> takes for an invalid option: the loop goes on, and since every
  later read is at the end of the input too, it is never left. Whatever the fuel,
  the program started on an empty input does not come back from the exploration;
  started on the line "s" it leaves the loop in its first turn.
\<close>

theorem end_of_input_never_exits:
  "main_prog fuel [] = None \<and>
   resumo (main_prog 1 (linha ''s'')) =
     Some (Inr ([''Hall de Entrada''], [''Pegadas de lama''], AcusacaoCancelada))"
proof
  from indice_do_jogo_ok obtain t where t: "indice_do_jogo = Inr (Some t)" "tabela_inv t"
    by blast
  have m: "mansao = SNode ''Hall de Entrada'' (Some ''Pegadas de lama'')
             (conectar (criarSala (Some ''Sala de Estar'') (Some livro_pagina))
                (criarSala (Some ''Cozinha'') (Some ''Chave perdida''))
                (criarSala (Some ''Biblioteca'') None))
             (conectar (criarSala (Some ''Corredor'') None)
                (criarSala (Some ''Quarto'') (Some lencol_manchado))
                (criarSala (Some ''Jardim'') (Some ''Gaveta perdida'')))"
    by (simp add: mansao_def criarSala_def conectar_def)
  have "explorar_loop fuel (Some t)
          \<lparr>atual = mansao, historico = [], pistas = PNull, entrada = [], saida = []\<rparr> = None"
    using t(2) by (intro explorar_loop_eof [where nm = "''Hall de Entrada''"])
      (simp_all add: indice_ok_def m)
  then show "main_prog fuel [] = None"
    by (simp add: main_prog_def t explorarSalas_def m)
  show "resumo (main_prog 1 (linha ''s'')) =
     Some (Inr ([''Hall de Entrada''], [''Pegadas de lama''], AcusacaoCancelada))"
    by (simp add: avaliar_jogo)
qed

lemma explorar_loop_mais:
  "explorar_loop n ht st = Some r \<Longrightarrow> explorar_loop (n + k) ht st = Some r"
proof (induction n arbitrary: st)
  case 0
  then show ?case by simp
next
  case (Suc n)
  then show ?case by (auto split: sum.splits if_splits)
qed

lemma explorarSalas_mais:
  assumes "explorarSalas n i ht ps inp = Some x"
  shows "explorarSalas (n + k) i ht ps inp = Some x"
proof (cases "i = SNull")
  case True
  with assms show ?thesis by (simp add: explorarSalas_def)
next
  case False
  let ?st = "\<lparr>atual = i, historico = [], pistas = ps, entrada = inp, saida = []\<rparr>"
  show ?thesis
  proof (cases "explorar_loop n ht ?st")
    case None
    with False assms show ?thesis by (simp add: explorarSalas_def)
  next
    case (Some y)
    then have "explorar_loop (n + k) ht ?st = Some y" by (rule explorar_loop_mais)
    with Some False assms show ?thesis by (simp add: explorarSalas_def)
  qed
qed

lemma main_prog_mais:
  assumes "main_prog n inp = Some r" and "n \<le> m"
  shows "main_prog m inp = Some r"
proof -
  from assms(2) obtain k where m: "m = n + k" by (auto simp: le_iff_add)
  show ?thesis
  proof (cases indice_do_jogo)
    case (Inl f)
    from assms(1) show ?thesis by (simp add: main_prog_def Inl)
  next
    case (Inr ht)
    show ?thesis
    proof (cases "explorarSalas n mansao ht PNull inp")
      case None
      from assms(1) show ?thesis by (simp add: main_prog_def Inr None)
    next
      case (Some x)
      then have "explorarSalas (n + k) mansao ht PNull inp = Some x"
        by (rule explorarSalas_mais)
      with assms(1) show ?thesis by (simp add: main_prog_def Inr Some m)
    qed
  qed
qed

text \<open>
  C1, as the code has it. The names of the reference map are those of the source:
  Hall is "Hall de Entrada", Corridor "Corredor", Bedroom "Quarto"; the clue
  "Muddy footprints" is "Pegadas de lama", "Stained sheet" is \<open>lencol_manchado\<close>;
  Butler is "Empregado", Gardener "Jardineiro". With the lines d, e, s (right,
  left, exit) and then the name accused, every run with fuel for three turns
  ends with the history Hall, Corridor, Bedroom and the ledger holding exactly
  the clues of the hall and of the bedroom. Each of the two suspects has one of
  these two clues: accusing the butler gives \<open>Inocentado\<close> (InsufficientEvidence),
  and so does accusing the gardener.
\<close>

theorem reference_run:
  "3 \<le> fuel \<Longrightarrow>
     resumo (main_prog fuel (linha ''d'' @ linha ''e'' @ linha ''s'' @ linha ''Empregado'')) =
       Some (Inr ([''Hall de Entrada'', ''Corredor'', ''Quarto''],
                  [lencol_manchado, ''Pegadas de lama''], Inocentado)) \<and>
     resumo (main_prog fuel (linha ''d'' @ linha ''e'' @ linha ''s'' @ linha ''Jardineiro'')) =
       Some (Inr ([''Hall de Entrada'', ''Corredor'', ''Quarto''],
                  [lencol_manchado, ''Pegadas de lama''], Inocentado))"
proof -
  assume f: "3 \<le> fuel"
  let ?e = "linha ''d'' @ linha ''e'' @ linha ''s'' @ linha ''Empregado''"
  let ?j = "linha ''d'' @ linha ''e'' @ linha ''s'' @ linha ''Jardineiro''"
  let ?r = "Some (Inr ([''Hall de Entrada'', ''Corredor'', ''Quarto''],
                  [lencol_manchado, ''Pegadas de lama''], Inocentado))"
  have e3: "resumo (main_prog 3 ?e) = ?r" by (simp add: avaliar_jogo)
  have j3: "resumo (main_prog 3 ?j) = ?r" by (simp add: avaliar_jogo)
  from e3 obtain re where re: "main_prog 3 ?e = Some re" by (auto simp: resumo_def)
  from re f have "main_prog fuel ?e = Some re" by (rule main_prog_mais)
  with re e3 have e: "resumo (main_prog fuel ?e) = ?r" by simp
  from j3 obtain rj where rj: "main_prog 3 ?j = Some rj" by (auto simp: resumo_def)
  from rj f have "main_prog fuel ?j = Some rj" by (rule main_prog_mais)
  with rj j3 have j: "resumo (main_prog fuel ?j) = ?r" by simp
  from e j show ?thesis by (rule conjI)
qed

theorem reference_run_witness:
  "(3::nat) \<le> 3 \<and>
   resumo (main_prog 3 (linha ''d'' @ linha ''e'' @ linha ''s'' @ linha ''Empregado'')) =
       Some (Inr ([''Hall de Entrada'', ''Corredor'', ''Quarto''],
                  [lencol_manchado, ''Pegadas de lama''], Inocentado))"
  using reference_run [of 3] by simp

text \<open>
  C1, as the specification has it, fails on its last sentence: the clue of the
  hall, collected in this run, is bound to the gardener, so the accusation of the
  gardener finds one clue and the verdict is \<open>Inocentado\<close>
  (InsufficientEvidence), not \<open>Improcedente\<close> (Unsupported).
\<close>

theorem gardener_accusation_counterexample:
  "resumo (main_prog 3 (linha ''d'' @ linha ''e'' @ linha ''s'' @ linha ''Jardineiro'')) =
       Some (Inr ([''Hall de Entrada'', ''Corredor'', ''Quarto''],
                  [lencol_manchado, ''Pegadas de lama''], Inocentado)) \<and>
   Inocentado \<noteq> Improcedente"
  by (simp add: avaliar_jogo)

end
